theory Spec2Isabelle
  imports Complex_Main
begin

section \<open>Data model of \<open>PythonEyeDetection.py\<close>\<close>

text \<open>
  The detection loop of \<open>run_detection\<close> reads one camera frame per iteration, takes the
  wall clock, classifies the frame into two booleans and then updates its local variables.
  Clock readings and accumulated seconds are Python floats; they are modelled as reals.
  The landmark geometry (eye aspect ratios, iris offsets) is computed by MediaPipe and
  numpy and enters the model as the four numbers the loop compares against its thresholds.
\<close>

datatype error = ZeroDivisionError | UnboundLocalError

record face_metrics =
  left_ear :: real
  right_ear :: real
  gaze_x :: real
  gaze_y :: real

text \<open>
  What one iteration of the loop receives from outside: the clock reading
  \<open>current_time\<close>, the landmarks of the first face (\<open>None\<close> when
  \<open>results.multi_face_landmarks\<close> is empty), whether a call of \<open>arduino.write\<close> made
  during this iteration would succeed, and the offset of local time from UTC, in seconds,
  that \<open>datetime.fromtimestamp\<close> applies to a clock reading during this iteration.
\<close>

record frame =
  current_time :: real
  face :: "face_metrics option"
  write_ok :: bool
  utc_offset :: "real \<Rightarrow> int"

text \<open>
  An entry of \<open>absence_events\<close> or \<open>distraction_events\<close>, a dictionary with the keys
  \<open>start\<close>, \<open>end\<close> and \<open>duration\<close>: two clock readings rendered as local time of day,
  and a number of seconds.
\<close>

record event =
  ev_start :: string
  ev_end :: string
  duration :: real

datatype log_line =
  LogTrying | LogConnected | LogConnectFailed | LogSent char | LogSendError

text \<open>
  The module-level globals \<open>arduino\<close> and \<open>arduino_connected\<close>, together with what the
  serial port and the console have seen: every call of \<open>arduino.write\<close> with its argument
  and outcome, and the lines printed by the two Arduino functions.
\<close>

record arduino_io =
  arduino :: "string option"
  arduino_connected :: bool
  writes :: "(char \<times> bool) list"
  console :: "log_line list"

record thresholds =
  presence_threshold :: int
  focus_threshold :: int

text \<open>The local variables of \<open>run_detection\<close>; a score is \<open>None\<close> until it is first assigned.\<close>

record loop_state =
  start_time :: real
  total_time :: real
  present_time :: real
  focused_time :: real
  presence_counter :: int
  absence_counter :: int
  focus_counter :: int
  distraction_counter :: int
  is_present :: bool
  is_focused :: bool
  last_arduino_state :: "char option"
  absence_events :: "event list"
  distraction_events :: "event list"
  current_absence :: "real option"
  current_distraction :: "real option"
  presence_score :: "real option"
  focus_score :: "real option"
  overall_score :: "real option"
  io :: arduino_io

record summary =
  sum_total_time :: real
  sum_present_time :: real
  sum_presence_score :: real
  sum_focused_time :: real
  sum_focus_score :: real
  sum_overall_score :: real
  sum_absence_count :: nat
  sum_distraction_count :: nat
  sum_absence_events :: "event list"
  sum_distraction_events :: "event list"

section \<open>The Arduino link\<close>

definition port :: string where
  "port = ''/dev/cu.usbmodem101''"

definition globals0 :: arduino_io where
  "globals0 = \<lparr>arduino = None, arduino_connected = False, writes = [], console = []\<rparr>"

text \<open>\<open>connect_to_arduino\<close>; \<open>serial_ok\<close> says whether opening the serial port succeeds.\<close>

definition connect_to_arduino :: "bool \<Rightarrow> arduino_io \<Rightarrow> bool \<times> arduino_io" where
  "connect_to_arduino serial_ok g =
     (if serial_ok
      then (True, g\<lparr>arduino := Some port, arduino_connected := True,
                     console := console g @ [LogTrying, LogConnected]\<rparr>)
      else (False, g\<lparr>arduino_connected := False,
                      console := console g @ [LogTrying, LogConnectFailed]\<rparr>))"

text \<open>\<open>send_to_arduino\<close>; \<open>ok\<close> says whether \<open>arduino.write\<close> succeeds if it is called.\<close>

definition send_to_arduino :: "bool \<Rightarrow> char \<Rightarrow> arduino_io \<Rightarrow> arduino_io" where
  "send_to_arduino ok st g =
     (if arduino g \<noteq> None \<and> arduino_connected g
      then (if ok
            then g\<lparr>writes := writes g @ [(st, True)], console := console g @ [LogSent st]\<rparr>
            else g\<lparr>writes := writes g @ [(st, False)], console := console g @ [LogSendError]\<rparr>)
      else g)"

section \<open>Frame classification\<close>

definition is_looking_at_screen :: "real \<Rightarrow> real \<Rightarrow> bool" where
  "is_looking_at_screen gx gy = (\<bar>gx\<bar> < 0.14 \<and> \<bar>gy\<bar> < 0.14)"

definition are_eyes_open :: "real \<Rightarrow> real \<Rightarrow> bool" where
  "are_eyes_open l r = (l > 0.2 \<and> r > 0.2)"

definition face_detected :: "frame \<Rightarrow> bool" where
  "face_detected f = (face f \<noteq> None)"

definition focus_detected :: "frame \<Rightarrow> bool" where
  "focus_detected f =
     (case face f of
        None \<Rightarrow> False
      | Some m \<Rightarrow> are_eyes_open (left_ear m) (right_ear m)
                  \<and> is_looking_at_screen (gaze_x m) (gaze_y m))"

section \<open>Rendering a clock reading\<close>

text \<open>
  \<open>datetime.fromtimestamp(t).strftime('%H:%M:%S')\<close>: the reading is rounded to the
  microsecond, half to even, its whole seconds are shifted to local time, and the time of
  day is printed with two digits each for hours, minutes and seconds. \<open>fromtimestamp\<close>
  raises only for readings outside the years 1 to 9999, which the clock does not return;
  the model gives every reading a rendering.
\<close>

definition round_half_even :: "real \<Rightarrow> int" where
  "round_half_even x =
     (let n = \<lfloor>x\<rfloor>; r = x - of_int n
      in if r < 1 / 2 then n else if 1 / 2 < r then n + 1 else if even n then n else n + 1)"

definition two_digits :: "int \<Rightarrow> string" where
  "two_digits n = [''0123456789'' ! nat (n div 10), ''0123456789'' ! nat (n mod 10)]"

definition strftime_hms :: "int \<Rightarrow> string" where
  "strftime_hms n =
     two_digits (n mod 86400 div 3600) @ '':'' @ two_digits (n mod 3600 div 60)
     @ '':'' @ two_digits (n mod 60)"

definition fromtimestamp :: "frame \<Rightarrow> real \<Rightarrow> int" where
  "fromtimestamp f t = round_half_even (t * 1000000) div 1000000 + utc_offset f t"

definition clock_string :: "frame \<Rightarrow> real \<Rightarrow> string" where
  "clock_string f t = strftime_hms (fromtimestamp f t)"

section \<open>One iteration of the loop\<close>

text \<open>
  The state machine for presence detection; \<open>now\<close> is the frame's \<open>current_time\<close> and
  \<open>r\<close> renders a clock reading during this iteration.
\<close>

definition presence_machine ::
  "thresholds \<Rightarrow> (real \<Rightarrow> string) \<Rightarrow> real \<Rightarrow> bool \<Rightarrow> loop_state \<Rightarrow> loop_state" where
  "presence_machine p r now fd s =
     (if fd then
        (let s1 = s\<lparr>presence_counter := presence_counter s + 1, absence_counter := 0\<rparr> in
         if presence_counter s1 \<ge> presence_threshold p \<and> \<not> is_present s1 then
           (let s2 = s1\<lparr>is_present := True\<rparr> in
            case current_absence s2 of
              Some st \<Rightarrow>
                s2\<lparr>absence_events := absence_events s2
                       @ [\<lparr>ev_start = r st, ev_end = r now, duration = now - st\<rparr>],
                    current_absence := None\<rparr>
            | None \<Rightarrow> s2)
         else s1)
      else
        (let s1 = s\<lparr>absence_counter := absence_counter s + 1, presence_counter := 0\<rparr> in
         if absence_counter s1 \<ge> presence_threshold p \<and> is_present s1
         then s1\<lparr>is_present := False, current_absence := Some now\<rparr>
         else s1))"

text \<open>The state machine for focus detection.\<close>

definition focus_machine ::
  "thresholds \<Rightarrow> (real \<Rightarrow> string) \<Rightarrow> real \<Rightarrow> bool \<Rightarrow> loop_state \<Rightarrow> loop_state" where
  "focus_machine p r now fd s =
     (if fd then
        (let s1 = s\<lparr>focus_counter := focus_counter s + 1, distraction_counter := 0\<rparr> in
         if focus_counter s1 \<ge> focus_threshold p \<and> \<not> is_focused s1 then
           (let s2 = s1\<lparr>is_focused := True\<rparr> in
            case current_distraction s2 of
              Some st \<Rightarrow>
                s2\<lparr>distraction_events := distraction_events s2
                       @ [\<lparr>ev_start = r st, ev_end = r now, duration = now - st\<rparr>],
                    current_distraction := None\<rparr>
            | None \<Rightarrow> s2)
         else s1)
      else
        (let s1 = s\<lparr>distraction_counter := distraction_counter s + 1, focus_counter := 0\<rparr> in
         if distraction_counter s1 \<ge> focus_threshold p \<and> is_focused s1
         then s1\<lparr>is_focused := False, current_distraction := Some now\<rparr>
         else s1))"

text \<open>
  The time metrics and the two state machines: the part of the loop body before the
  scores. \<open>time_diff\<close> is taken against \<open>start_time\<close>, which is then moved to the frame.
\<close>

definition track :: "thresholds \<Rightarrow> frame \<Rightarrow> loop_state \<Rightarrow> loop_state" where
  "track p f s =
     (let time_diff = current_time f - start_time s;
          s1 = s\<lparr>start_time := current_time f, total_time := total_time s + time_diff\<rparr>;
          s2 = presence_machine p (clock_string f) (current_time f) (face_detected f) s1;
          s3 = (if is_present s2 then s2\<lparr>present_time := present_time s2 + time_diff\<rparr> else s2);
          s4 = focus_machine p (clock_string f) (current_time f) (focus_detected f) s3
      in (if is_focused s4 then s4\<lparr>focused_time := focused_time s4 + time_diff\<rparr> else s4))"

text \<open>Python's \<open>/\<close> on floats raises on a zero divisor.\<close>

definition py_truediv :: "real \<Rightarrow> real \<Rightarrow> error + real" where
  "py_truediv a b = (if b = 0 then Inl ZeroDivisionError else Inr (a / b))"

text \<open>The expression \<open>(a / b) * 100 if b > 0 else 0\<close> used for each of the three scores.\<close>

definition score_of :: "real \<Rightarrow> real \<Rightarrow> error + real" where
  "score_of a b =
     (if b > 0
      then (case py_truediv a b of Inl e \<Rightarrow> Inl e | Inr q \<Rightarrow> Inr (q * 100))
      else Inr 0)"

definition calc_scores :: "loop_state \<Rightarrow> error + loop_state" where
  "calc_scores s =
     (case score_of (present_time s) (total_time s) of
        Inl e \<Rightarrow> Inl e
      | Inr ps \<Rightarrow>
          (case score_of (focused_time s) (present_time s) of
             Inl e \<Rightarrow> Inl e
           | Inr fs \<Rightarrow>
               (case score_of (focused_time s) (total_time s) of
                  Inl e \<Rightarrow> Inl e
                | Inr os \<Rightarrow>
                    Inr (s\<lparr>presence_score := Some ps, focus_score := Some fs,
                           overall_score := Some os\<rparr>))))"

text \<open>The command for the Arduino: absent first, then focused, else distracted.\<close>

definition current_arduino_state :: "loop_state \<Rightarrow> char" where
  "current_arduino_state s =
     (if \<not> is_present s then CHR ''A''
      else if is_focused s then CHR ''F''
      else CHR ''D'')"

definition actuate :: "bool \<Rightarrow> loop_state \<Rightarrow> loop_state" where
  "actuate ok s =
     (let c = current_arduino_state s in
      if Some c \<noteq> last_arduino_state s
      then s\<lparr>io := send_to_arduino ok c (io s), last_arduino_state := Some c\<rparr>
      else s)"

definition frame_step :: "thresholds \<Rightarrow> frame \<Rightarrow> loop_state \<Rightarrow> error + loop_state" where
  "frame_step p f s =
     (case calc_scores (track p f s) of
        Inl e \<Rightarrow> Inl e
      | Inr s' \<Rightarrow> Inr (actuate (write_ok f) s'))"

section \<open>The session\<close>

text \<open>
  The loop runs over the frames the camera delivers until it is left (a failed read or
  the quit key); an exception leaves it at once.
\<close>

fun run_frames :: "thresholds \<Rightarrow> frame list \<Rightarrow> loop_state \<Rightarrow> error + loop_state" where
  "run_frames p [] s = Inr s"
| "run_frames p (f # fs) s =
     (case frame_step p f s of Inl e \<Rightarrow> Inl e | Inr s' \<Rightarrow> run_frames p fs s')"

text \<open>The variables as initialised before the loop; \<open>t0\<close> is the clock reading taken there.\<close>

definition init_state :: "real \<Rightarrow> arduino_io \<Rightarrow> loop_state" where
  "init_state t0 g =
     \<lparr>start_time = t0, total_time = 0, present_time = 0, focused_time = 0,
      presence_counter = 0, absence_counter = 0, focus_counter = 0, distraction_counter = 0,
      is_present = False, is_focused = False, last_arduino_state = None,
      absence_events = [], distraction_events = [],
      current_absence = None, current_distraction = None,
      presence_score = None, focus_score = None, overall_score = None,
      io = g\<rparr>"

definition source_thresholds :: thresholds where
  "source_thresholds = \<lparr>presence_threshold = 10, focus_threshold = 10\<rparr>"

text \<open>
  The session summary printed in the \<open>finally\<close> block. It reads the three scores, which
  are unbound when the loop was left before a first frame was processed.
\<close>

definition session_summary :: "loop_state \<Rightarrow> error + summary" where
  "session_summary s =
     (case presence_score s of
        None \<Rightarrow> Inl UnboundLocalError
      | Some ps \<Rightarrow>
          (case focus_score s of
             None \<Rightarrow> Inl UnboundLocalError
           | Some fs \<Rightarrow>
               (case overall_score s of
                  None \<Rightarrow> Inl UnboundLocalError
                | Some os \<Rightarrow>
                    Inr \<lparr>sum_total_time = total_time s,
                         sum_present_time = present_time s, sum_presence_score = ps,
                         sum_focused_time = focused_time s, sum_focus_score = fs,
                         sum_overall_score = os,
                         sum_absence_count = length (absence_events s),
                         sum_distraction_count = length (distraction_events s),
                         sum_absence_events = absence_events s,
                         sum_distraction_events = distraction_events s\<rparr>)))"

text \<open>
  The module run as a script: the connection attempt at import, then \<open>run_detection\<close>,
  which returns at once when the camera did not open and otherwise ends with the summary.
\<close>

definition run_detection :: "bool \<Rightarrow> bool \<Rightarrow> real \<Rightarrow> frame list \<Rightarrow> error + summary option" where
  "run_detection serial_ok camera_ok t0 fs =
     (let g = snd (connect_to_arduino serial_ok globals0) in
      if \<not> camera_ok then Inr None
      else (case run_frames source_thresholds fs (init_state t0 g) of
              Inl e \<Rightarrow> Inl e
            | Inr s \<Rightarrow>
                (case session_summary s of Inl e \<Rightarrow> Inl e | Inr r \<Rightarrow> Inr (Some r))))"

section \<open>Notions used to state the properties\<close>

text \<open>The number of entries at the end of a list that are equal to \<open>b\<close>.\<close>

definition trailing :: "'a \<Rightarrow> 'a list \<Rightarrow> nat" where
  "trailing b xs = length (takeWhile (\<lambda>x. x = b) (rev xs))"

text \<open>
  The specification speaks of one counter per axis, the progress toward leaving the
  current stable state. In the code this is the counter of the opposite direction:
  \<open>presence_counter\<close> while absent, \<open>absence_counter\<close> while present, and likewise for
  focus.
\<close>

definition presence_progress :: "loop_state \<Rightarrow> int" where
  "presence_progress s = (if is_present s then absence_counter s else presence_counter s)"

definition focus_progress :: "loop_state \<Rightarrow> int" where
  "focus_progress s = (if is_focused s then distraction_counter s else focus_counter s)"

text \<open>
  The update of the specification's debounced binary state, a pair of match counter and
  stable state: a raw signal opposite to the stable state increments the counter, any
  other resets it to 0; when the counter reaches the threshold the stable state flips and
  the counter is reset to 0.
\<close>

definition spec_debounced_update :: "int \<Rightarrow> bool \<Rightarrow> int \<times> bool \<Rightarrow> int \<times> bool" where
  "spec_debounced_update T raw cs =
     (let c = (if raw \<noteq> snd cs then fst cs + 1 else 0)
      in if c = T then (0, \<not> snd cs) else (c, snd cs))"

text \<open>
  The event the loop records when an interval opened on frame \<open>i\<close> of a session is closed
  on its frame \<open>j\<close>.
\<close>

definition interval_of :: "frame list \<Rightarrow> nat \<Rightarrow> nat \<Rightarrow> event" where
  "interval_of fs i j =
     \<lparr>ev_start = clock_string (fs ! j) (current_time (fs ! i)),
      ev_end = clock_string (fs ! j) (current_time (fs ! j)),
      duration = current_time (fs ! j) - current_time (fs ! i)\<rparr>"

text \<open>
  What the camera, the clock and the local time zone deliver in a frame, without the
  serial port's answer.
\<close>

definition frame_input :: "frame \<Rightarrow> real \<times> face_metrics option \<times> (real \<Rightarrow> int)" where
  "frame_input f = (current_time f, face f, utc_offset f)"

text \<open>
  The value of a score expression, and the state an iteration ends in; both are shown
  below to be what \<open>score_of\<close> and \<open>frame_step\<close> return.
\<close>

definition pct :: "real \<Rightarrow> real \<Rightarrow> real" where
  "pct a b = (if b > 0 then a / b * 100 else 0)"

definition scored :: "loop_state \<Rightarrow> loop_state" where
  "scored s =
     s\<lparr>presence_score := Some (pct (present_time s) (total_time s)),
       focus_score := Some (pct (focused_time s) (present_time s)),
       overall_score := Some (pct (focused_time s) (total_time s))\<rparr>"

definition next_state :: "thresholds \<Rightarrow> frame \<Rightarrow> loop_state \<Rightarrow> loop_state" where
  "next_state p f s = actuate (write_ok f) (scored (track p f s))"

definition final_state :: "thresholds \<Rightarrow> frame list \<Rightarrow> loop_state \<Rightarrow> loop_state" where
  "final_state p fs s = foldl (\<lambda>s f. next_state p f s) s fs"

text \<open>
  Frames for the example sessions: a face looking at the screen, and no face; local time
  is UTC in them.
\<close>

definition face_on :: "real \<Rightarrow> frame" where
  "face_on t = \<lparr>current_time = t,
     face = Some \<lparr>left_ear = 0.3, right_ear = 0.3, gaze_x = 0, gaze_y = 0\<rparr>,
     write_ok = True, utc_offset = (\<lambda>t. 0)\<rparr>"

definition face_off :: "real \<Rightarrow> frame" where
  "face_off t = \<lparr>current_time = t, face = None, write_ok = True, utc_offset = (\<lambda>t. 0)\<rparr>"

definition scenario_a_frames :: "frame list" where
  "scenario_a_frames =
     map face_on [1, 2, 3, 4, 5, 6, 7, 8, 9] @ [face_off 10]
     @ map face_on [11, 12, 13, 14, 15, 16, 17, 18, 19, 20]"

text \<open>
  A session in which the clock stops advancing: the face is seen for ten frames, lost
  for ten, and seen again for ten frames that all carry the clock reading 20.
\<close>

definition stalled_clock_frames :: "frame list" where
  "stalled_clock_frames =
     map face_on [1, 2, 3, 4, 5, 6, 7, 8, 9, 10]
     @ map face_off [11, 12, 13, 14, 15, 16, 17, 18, 19, 20]
     @ map face_on [20, 20, 20, 20, 20, 20, 20, 20, 20, 20]"

text \<open>
  A session with an advancing clock in which the face is seen for ten frames, lost for
  ten and seen again; \<open>away_frames\<close> is the session up to the last frame before the return
  is accepted.
\<close>

definition away_frames :: "frame list" where
  "away_frames =
     map face_on [1, 2, 3, 4, 5, 6, 7, 8, 9, 10]
     @ map face_off [11, 12, 13, 14, 15, 16, 17, 18, 19, 20]
     @ map face_on [21, 22, 23, 24, 25, 26, 27, 28, 29]"

text \<open>
  Frames during which a write to the serial port would fail, and a session in which the
  face is seen for ten frames and then lost for ten, the write failing on the tenth frame.
\<close>

definition face_on_failing :: "real \<Rightarrow> frame" where
  "face_on_failing t =
     \<lparr>current_time = t,
      face = Some \<lparr>left_ear = 0.3, right_ear = 0.3, gaze_x = 0, gaze_y = 0\<rparr>,
      write_ok = False, utc_offset = (\<lambda>t. 0)\<rparr>"

definition failed_focus_write_frames :: "frame list" where
  "failed_focus_write_frames =
     map face_on [1, 2, 3, 4, 5, 6, 7, 8, 9] @ [face_on_failing 10]
     @ map face_off [11, 12, 13, 14, 15, 16, 17, 18, 19, 20]"

definition face_off_failing :: "real \<Rightarrow> frame" where
  "face_off_failing t =
     \<lparr>current_time = t, face = None, write_ok = False, utc_offset = (\<lambda>t. 0)\<rparr>"

text \<open>
  A session with a strictly increasing clock in which the face is seen for ten frames,
  lost for ten and seen again for ten frames within the half second after reading 20.
\<close>

definition brief_absence_frames :: "frame list" where
  "brief_absence_frames =
     map face_on [1, 2, 3, 4, 5, 6, 7, 8, 9, 10]
     @ map face_off [11, 12, 13, 14, 15, 16, 17, 18, 19, 20]
     @ map face_on [20.05, 20.1, 20.15, 20.2, 20.25, 20.3, 20.35, 20.4, 20.45, 20.5]"

text \<open>Invariants of the loop, used in the proofs below.\<close>

definition debounce_inv :: "thresholds \<Rightarrow> loop_state \<Rightarrow> bool" where
  "debounce_inv p s =
     (0 \<le> presence_counter s \<and> 0 \<le> absence_counter s
      \<and> 0 \<le> focus_counter s \<and> 0 \<le> distraction_counter s
      \<and> (if is_present s then absence_counter s < presence_threshold p
          else presence_counter s < presence_threshold p)
      \<and> (if is_focused s then distraction_counter s < focus_threshold p
          else focus_counter s < focus_threshold p))"

definition coupled_inv :: "thresholds \<Rightarrow> loop_state \<Rightarrow> bool" where
  "coupled_inv p s =
     (focus_counter s \<le> presence_counter s \<and> absence_counter s \<le> distraction_counter s
      \<and> (presence_threshold p \<le> presence_counter s \<longrightarrow> is_present s)
      \<and> (focus_threshold p \<le> distraction_counter s \<longrightarrow> \<not> is_focused s)
      \<and> (is_focused s \<longrightarrow> is_present s))"

definition metrics_inv :: "loop_state \<Rightarrow> bool" where
  "metrics_inv s =
     (0 \<le> present_time s \<and> 0 \<le> focused_time s
      \<and> present_time s \<le> total_time s \<and> focused_time s \<le> total_time s)"

section \<open>The loop never raises\<close>

lemma score_of_Inr: "score_of a b = Inr (pct a b)"
  by (simp add: score_of_def pct_def py_truediv_def)

lemma calc_scores_Inr: "calc_scores s = Inr (scored s)"
  by (simp add: calc_scores_def score_of_Inr scored_def)

lemma frame_step_Inr: "frame_step p f s = Inr (next_state p f s)"
  by (simp add: frame_step_def calc_scores_Inr next_state_def)

lemma run_frames_Inr: "run_frames p fs s = Inr (final_state p fs s)"
  by (induction fs arbitrary: s) (simp_all add: final_state_def frame_step_Inr)

lemma final_state_Nil: "final_state p [] s = s"
  by (simp add: final_state_def)

lemma final_state_snoc: "final_state p (fs @ [f]) s = next_state p f (final_state p fs s)"
  by (simp add: final_state_def)

lemma final_state_append: "final_state p (fs @ gs) s = final_state p gs (final_state p fs s)"
  by (simp add: final_state_def)

section \<open>What one iteration does to each variable\<close>

lemma presence_machine_presence:
  "presence_counter (presence_machine p r now fd s) = (if fd then presence_counter s + 1 else 0)"
  "absence_counter (presence_machine p r now fd s) = (if fd then 0 else absence_counter s + 1)"
  "is_present (presence_machine p r now fd s) =
     (if fd then is_present s \<or> presence_threshold p \<le> presence_counter s + 1
      else is_present s \<and> \<not> presence_threshold p \<le> absence_counter s + 1)"
  by (auto simp add: presence_machine_def Let_def split: option.split)

lemma presence_machine_events:
  "absence_events (presence_machine p r now fd s) =
     (if fd \<and> presence_threshold p \<le> presence_counter s + 1 \<and> \<not> is_present s
      then (case current_absence s of
              Some st \<Rightarrow> absence_events s @ [\<lparr>ev_start = r st, ev_end = r now, duration = now - st\<rparr>]
            | None \<Rightarrow> absence_events s)
      else absence_events s)"
  "current_absence (presence_machine p r now fd s) =
     (if fd then (if presence_threshold p \<le> presence_counter s + 1 \<and> \<not> is_present s
                  then None else current_absence s)
      else (if presence_threshold p \<le> absence_counter s + 1 \<and> is_present s
            then Some now else current_absence s))"
  by (auto simp add: presence_machine_def Let_def split: option.split)

lemma presence_machine_other:
  "start_time (presence_machine p r now fd s) = start_time s"
  "total_time (presence_machine p r now fd s) = total_time s"
  "present_time (presence_machine p r now fd s) = present_time s"
  "focused_time (presence_machine p r now fd s) = focused_time s"
  "focus_counter (presence_machine p r now fd s) = focus_counter s"
  "distraction_counter (presence_machine p r now fd s) = distraction_counter s"
  "is_focused (presence_machine p r now fd s) = is_focused s"
  "last_arduino_state (presence_machine p r now fd s) = last_arduino_state s"
  "distraction_events (presence_machine p r now fd s) = distraction_events s"
  "current_distraction (presence_machine p r now fd s) = current_distraction s"
  "presence_score (presence_machine p r now fd s) = presence_score s"
  "focus_score (presence_machine p r now fd s) = focus_score s"
  "overall_score (presence_machine p r now fd s) = overall_score s"
  "io (presence_machine p r now fd s) = io s"
  by (auto simp add: presence_machine_def Let_def split: option.split)

lemma focus_machine_focus:
  "focus_counter (focus_machine p r now fd s) = (if fd then focus_counter s + 1 else 0)"
  "distraction_counter (focus_machine p r now fd s) = (if fd then 0 else distraction_counter s + 1)"
  "is_focused (focus_machine p r now fd s) =
     (if fd then is_focused s \<or> focus_threshold p \<le> focus_counter s + 1
      else is_focused s \<and> \<not> focus_threshold p \<le> distraction_counter s + 1)"
  by (auto simp add: focus_machine_def Let_def split: option.split)

lemma focus_machine_events:
  "distraction_events (focus_machine p r now fd s) =
     (if fd \<and> focus_threshold p \<le> focus_counter s + 1 \<and> \<not> is_focused s
      then (case current_distraction s of
              Some st \<Rightarrow> distraction_events s @ [\<lparr>ev_start = r st, ev_end = r now, duration = now - st\<rparr>]
            | None \<Rightarrow> distraction_events s)
      else distraction_events s)"
  "current_distraction (focus_machine p r now fd s) =
     (if fd then (if focus_threshold p \<le> focus_counter s + 1 \<and> \<not> is_focused s
                  then None else current_distraction s)
      else (if focus_threshold p \<le> distraction_counter s + 1 \<and> is_focused s
            then Some now else current_distraction s))"
  by (auto simp add: focus_machine_def Let_def split: option.split)

lemma focus_machine_other:
  "start_time (focus_machine p r now fd s) = start_time s"
  "total_time (focus_machine p r now fd s) = total_time s"
  "present_time (focus_machine p r now fd s) = present_time s"
  "focused_time (focus_machine p r now fd s) = focused_time s"
  "presence_counter (focus_machine p r now fd s) = presence_counter s"
  "absence_counter (focus_machine p r now fd s) = absence_counter s"
  "is_present (focus_machine p r now fd s) = is_present s"
  "last_arduino_state (focus_machine p r now fd s) = last_arduino_state s"
  "absence_events (focus_machine p r now fd s) = absence_events s"
  "current_absence (focus_machine p r now fd s) = current_absence s"
  "presence_score (focus_machine p r now fd s) = presence_score s"
  "focus_score (focus_machine p r now fd s) = focus_score s"
  "overall_score (focus_machine p r now fd s) = overall_score s"
  "io (focus_machine p r now fd s) = io s"
  by (auto simp add: focus_machine_def Let_def split: option.split)

lemmas machine_simps =
  presence_machine_presence presence_machine_events presence_machine_other
  focus_machine_focus focus_machine_events focus_machine_other

lemma track_clock:
  "start_time (track p f s) = current_time f"
  "total_time (track p f s) = total_time s + (current_time f - start_time s)"
  by (auto simp add: track_def Let_def machine_simps split: option.split)

lemma track_presence:
  "presence_counter (track p f s) = (if face_detected f then presence_counter s + 1 else 0)"
  "absence_counter (track p f s) = (if face_detected f then 0 else absence_counter s + 1)"
  "is_present (track p f s) =
     (if face_detected f then is_present s \<or> presence_threshold p \<le> presence_counter s + 1
      else is_present s \<and> \<not> presence_threshold p \<le> absence_counter s + 1)"
  by (auto simp add: track_def Let_def machine_simps split: option.split)

lemma track_focus:
  "focus_counter (track p f s) = (if focus_detected f then focus_counter s + 1 else 0)"
  "distraction_counter (track p f s) = (if focus_detected f then 0 else distraction_counter s + 1)"
  "is_focused (track p f s) =
     (if focus_detected f then is_focused s \<or> focus_threshold p \<le> focus_counter s + 1
      else is_focused s \<and> \<not> focus_threshold p \<le> distraction_counter s + 1)"
  by (auto simp add: track_def Let_def machine_simps split: option.split)

lemma track_times:
  "present_time (track p f s) =
     (if is_present (track p f s) then present_time s + (current_time f - start_time s)
      else present_time s)"
  "focused_time (track p f s) =
     (if is_focused (track p f s) then focused_time s + (current_time f - start_time s)
      else focused_time s)"
  by (auto simp add: track_def Let_def machine_simps split: option.split)

lemma track_absence_events:
  "absence_events (track p f s) =
     (if face_detected f \<and> presence_threshold p \<le> presence_counter s + 1 \<and> \<not> is_present s
      then (case current_absence s of
              Some st \<Rightarrow> absence_events s
                @ [\<lparr>ev_start = clock_string f st, ev_end = clock_string f (current_time f),
                    duration = current_time f - st\<rparr>]
            | None \<Rightarrow> absence_events s)
      else absence_events s)"
  "current_absence (track p f s) =
     (if face_detected f
      then (if presence_threshold p \<le> presence_counter s + 1 \<and> \<not> is_present s
            then None else current_absence s)
      else (if presence_threshold p \<le> absence_counter s + 1 \<and> is_present s
            then Some (current_time f) else current_absence s))"
  by (auto simp add: track_def Let_def machine_simps split: option.split)

lemma track_distraction_events:
  "distraction_events (track p f s) =
     (if focus_detected f \<and> focus_threshold p \<le> focus_counter s + 1 \<and> \<not> is_focused s
      then (case current_distraction s of
              Some st \<Rightarrow> distraction_events s
                @ [\<lparr>ev_start = clock_string f st, ev_end = clock_string f (current_time f),
                    duration = current_time f - st\<rparr>]
            | None \<Rightarrow> distraction_events s)
      else distraction_events s)"
  "current_distraction (track p f s) =
     (if focus_detected f
      then (if focus_threshold p \<le> focus_counter s + 1 \<and> \<not> is_focused s
            then None else current_distraction s)
      else (if focus_threshold p \<le> distraction_counter s + 1 \<and> is_focused s
            then Some (current_time f) else current_distraction s))"
  by (auto simp add: track_def Let_def machine_simps split: option.split)

lemma track_link:
  "last_arduino_state (track p f s) = last_arduino_state s"
  "io (track p f s) = io s"
  by (auto simp add: track_def Let_def machine_simps split: option.split)

lemma next_state_core:
  "start_time (next_state p f s) = start_time (track p f s)"
  "total_time (next_state p f s) = total_time (track p f s)"
  "present_time (next_state p f s) = present_time (track p f s)"
  "focused_time (next_state p f s) = focused_time (track p f s)"
  "presence_counter (next_state p f s) = presence_counter (track p f s)"
  "absence_counter (next_state p f s) = absence_counter (track p f s)"
  "focus_counter (next_state p f s) = focus_counter (track p f s)"
  "distraction_counter (next_state p f s) = distraction_counter (track p f s)"
  "is_present (next_state p f s) = is_present (track p f s)"
  "is_focused (next_state p f s) = is_focused (track p f s)"
  "absence_events (next_state p f s) = absence_events (track p f s)"
  "distraction_events (next_state p f s) = distraction_events (track p f s)"
  "current_absence (next_state p f s) = current_absence (track p f s)"
  "current_distraction (next_state p f s) = current_distraction (track p f s)"
  by (simp_all add: next_state_def actuate_def scored_def Let_def)

lemma next_state_scores:
  "presence_score (next_state p f s)
     = Some (pct (present_time (track p f s)) (total_time (track p f s)))"
  "focus_score (next_state p f s)
     = Some (pct (focused_time (track p f s)) (present_time (track p f s)))"
  "overall_score (next_state p f s)
     = Some (pct (focused_time (track p f s)) (total_time (track p f s)))"
  by (simp_all add: next_state_def actuate_def scored_def Let_def)

lemma current_arduino_state_next:
  "current_arduino_state (next_state p f s) = current_arduino_state (track p f s)"
  by (simp add: current_arduino_state_def next_state_core)

lemma next_state_link:
  "last_arduino_state (next_state p f s) = Some (current_arduino_state (track p f s))"
  "io (next_state p f s) =
     (if last_arduino_state s \<noteq> Some (current_arduino_state (track p f s))
      then send_to_arduino (write_ok f) (current_arduino_state (track p f s)) (io s)
      else io s)"
  by (auto simp add: next_state_def actuate_def scored_def Let_def
        current_arduino_state_def track_link)

lemmas step_simps =
  next_state_core track_clock track_presence track_focus track_times
  track_absence_events track_distraction_events

section \<open>Invariants of the debounce counters\<close>

lemma trailing_Nil: "trailing b [] = 0"
  by (simp add: trailing_def)

lemma trailing_snoc: "trailing b (xs @ [x]) = (if x = b then Suc (trailing b xs) else 0)"
  by (simp add: trailing_def)

lemma init_fields:
  "presence_counter (init_state t0 g) = 0" "absence_counter (init_state t0 g) = 0"
  "focus_counter (init_state t0 g) = 0" "distraction_counter (init_state t0 g) = 0"
  "is_present (init_state t0 g) = False" "is_focused (init_state t0 g) = False"
  "start_time (init_state t0 g) = t0" "total_time (init_state t0 g) = 0"
  "present_time (init_state t0 g) = 0" "focused_time (init_state t0 g) = 0"
  "absence_events (init_state t0 g) = []" "distraction_events (init_state t0 g) = []"
  "current_absence (init_state t0 g) = None" "current_distraction (init_state t0 g) = None"
  "last_arduino_state (init_state t0 g) = None" "io (init_state t0 g) = g"
  "presence_score (init_state t0 g) = None" "focus_score (init_state t0 g) = None"
  "overall_score (init_state t0 g) = None"
  by (simp_all add: init_state_def)

lemma counters_history:
  "presence_counter (final_state p fs (init_state t0 g)) = int (trailing True (map face_detected fs))
   \<and> absence_counter (final_state p fs (init_state t0 g)) = int (trailing False (map face_detected fs))
   \<and> focus_counter (final_state p fs (init_state t0 g)) = int (trailing True (map focus_detected fs))
   \<and> distraction_counter (final_state p fs (init_state t0 g)) = int (trailing False (map focus_detected fs))"
proof (induction fs rule: rev_induct)
  case Nil
  show ?case by (simp add: final_state_Nil init_fields trailing_Nil)
next
  case (snoc f fs)
  then show ?case
    by (simp add: final_state_snoc step_simps trailing_snoc)
qed

lemma debounce_inv_init:
  "0 < presence_threshold p \<Longrightarrow> 0 < focus_threshold p \<Longrightarrow> debounce_inv p (init_state t0 g)"
  by (simp add: debounce_inv_def init_fields)

lemma debounce_inv_step:
  assumes "0 < presence_threshold p" "0 < focus_threshold p" "debounce_inv p s"
  shows "debounce_inv p (next_state p f s)"
  using assms unfolding debounce_inv_def
  by (auto simp add: step_simps)

lemma debounce_inv_final:
  assumes "0 < presence_threshold p" "0 < focus_threshold p"
  shows "debounce_inv p (final_state p fs (init_state t0 g))"
  by (induction fs rule: rev_induct)
     (simp_all add: final_state_Nil final_state_snoc debounce_inv_init debounce_inv_step assms)

lemma focus_needs_face: "focus_detected f \<Longrightarrow> face_detected f"
  by (auto simp add: focus_detected_def face_detected_def split: option.splits)

lemma coupled_inv_init:
  "0 < presence_threshold p \<Longrightarrow> 0 < focus_threshold p \<Longrightarrow> coupled_inv p (init_state t0 g)"
  by (simp add: coupled_inv_def init_fields)

lemma coupled_inv_step:
  assumes "presence_threshold p = focus_threshold p" "0 < focus_threshold p"
    "debounce_inv p s" "coupled_inv p s"
  shows "coupled_inv p (next_state p f s)"
  using assms focus_needs_face [of f] unfolding coupled_inv_def debounce_inv_def
  by (auto simp add: step_simps)

lemma coupled_inv_final:
  assumes "presence_threshold p = focus_threshold p" "0 < focus_threshold p"
  shows "coupled_inv p (final_state p fs (init_state t0 g))"
  by (induction fs rule: rev_induct)
     (simp_all add: final_state_Nil final_state_snoc coupled_inv_init coupled_inv_step
        debounce_inv_final assms)

lemma progress_reset:
  "face_detected f = is_present s \<Longrightarrow> presence_progress (next_state p f s) = 0"
  "focus_detected f = is_focused s \<Longrightarrow> focus_progress (next_state p f s) = 0"
  by (auto simp add: presence_progress_def focus_progress_def step_simps)

lemma presence_flip_iff:
  assumes "debounce_inv p s"
  shows "is_present (next_state p f s) \<noteq> is_present s
     \<longleftrightarrow> face_detected f = (\<not> is_present s) \<and> presence_progress s + 1 = presence_threshold p"
  using assms unfolding debounce_inv_def presence_progress_def
  by (auto simp add: step_simps)

lemma focus_flip_iff:
  assumes "debounce_inv p s"
  shows "is_focused (next_state p f s) \<noteq> is_focused s
     \<longleftrightarrow> focus_detected f = (\<not> is_focused s) \<and> focus_progress s + 1 = focus_threshold p"
  using assms unfolding debounce_inv_def focus_progress_def
  by (auto simp add: step_simps)

lemma progress_after_flip:
  "is_present (next_state p f s) \<noteq> is_present s \<Longrightarrow> presence_progress (next_state p f s) = 0"
  "is_focused (next_state p f s) \<noteq> is_focused s \<Longrightarrow> focus_progress (next_state p f s) = 0"
  by (auto simp add: presence_progress_def focus_progress_def step_simps split: if_splits)

lemma progress_bounds:
  assumes "debounce_inv p s"
  shows "0 \<le> presence_progress s \<and> presence_progress s \<le> presence_threshold p
       \<and> 0 \<le> focus_progress s \<and> focus_progress s \<le> focus_threshold p"
  using assms unfolding debounce_inv_def presence_progress_def focus_progress_def
  by (auto split: if_splits)

lemma progress_refines_spec:
  assumes "debounce_inv p s" "0 < presence_threshold p" "0 < focus_threshold p"
  shows "(presence_progress (next_state p f s), is_present (next_state p f s))
           = spec_debounced_update (presence_threshold p) (face_detected f)
               (presence_progress s, is_present s)"
    and "(focus_progress (next_state p f s), is_focused (next_state p f s))
           = spec_debounced_update (focus_threshold p) (focus_detected f)
               (focus_progress s, is_focused s)"
  using assms unfolding debounce_inv_def presence_progress_def focus_progress_def
  by (auto simp add: spec_debounced_update_def Let_def step_simps)

lemma progress_is_run_length:
  "presence_progress (final_state p fs (init_state t0 g))
     = int (trailing (\<not> is_present (final_state p fs (init_state t0 g))) (map face_detected fs))"
  "focus_progress (final_state p fs (init_state t0 g))
     = int (trailing (\<not> is_focused (final_state p fs (init_state t0 g))) (map focus_detected fs))"
  using counters_history [of p fs t0 g]
  by (simp_all add: presence_progress_def focus_progress_def)

lemma presence_flip_run:
  assumes "0 < presence_threshold p" "0 < focus_threshold p"
  shows "is_present (next_state p f (final_state p fs (init_state t0 g)))
           \<noteq> is_present (final_state p fs (init_state t0 g))
     \<longleftrightarrow> face_detected f = (\<not> is_present (final_state p fs (init_state t0 g)))
         \<and> int (trailing (face_detected f) (map face_detected (fs @ [f]))) = presence_threshold p"
proof -
  let ?s = "final_state p fs (init_state t0 g)"
  have inv: "debounce_inv p ?s" by (rule debounce_inv_final [OF assms])
  show ?thesis
    unfolding presence_flip_iff [OF inv]
    using progress_is_run_length(1) [of p fs t0 g]
    by (auto simp add: trailing_snoc)
qed

lemma focus_flip_run:
  assumes "0 < presence_threshold p" "0 < focus_threshold p"
  shows "is_focused (next_state p f (final_state p fs (init_state t0 g)))
           \<noteq> is_focused (final_state p fs (init_state t0 g))
     \<longleftrightarrow> focus_detected f = (\<not> is_focused (final_state p fs (init_state t0 g)))
         \<and> int (trailing (focus_detected f) (map focus_detected (fs @ [f]))) = focus_threshold p"
proof -
  let ?s = "final_state p fs (init_state t0 g)"
  have inv: "debounce_inv p ?s" by (rule debounce_inv_final [OF assms])
  show ?thesis
    unfolding focus_flip_iff [OF inv]
    using progress_is_run_length(2) [of p fs t0 g]
    by (auto simp add: trailing_snoc)
qed

lemma scenario_a_runs:
  "list_all (\<lambda>n. \<not> ((replicate 9 True @ [False] @ replicate 10 True) ! n
                     \<and> trailing True (take (Suc n) (replicate 9 True @ [False] @ replicate 10 True)) = 10))
            [0..<19]
   \<and> (replicate 9 True @ [False] @ replicate 10 True) ! 19
   \<and> trailing True (take (Suc 19) (replicate 9 True @ [False] @ replicate 10 True)) = 10"
  by code_simp

lemma scenario_a_general:
  assumes pat: "map face_detected fs = replicate 9 True @ [False] @ replicate 10 True"
  shows "(\<forall>n<20. \<not> is_present (final_state source_thresholds (take n fs) (init_state t0 g)))
         \<and> is_present (final_state source_thresholds fs (init_state t0 g))"
proof -
  let ?bs = "replicate 9 True @ [False] @ replicate 10 True"
  let ?S = "\<lambda>n. final_state source_thresholds (take n fs) (init_state t0 g)"
  have "length (map face_detected fs) = 20" by (simp only: pat) simp
  then have len: "length fs = 20" by simp
  have thr: "0 < presence_threshold source_thresholds" "0 < focus_threshold source_thresholds"
    "presence_threshold source_thresholds = 10"
    by (simp_all add: source_thresholds_def)
  have flip: "is_present (?S (Suc n)) \<noteq> is_present (?S n)
      \<longleftrightarrow> ?bs ! n = (\<not> is_present (?S n)) \<and> trailing (?bs ! n) (take (Suc n) ?bs) = 10"
    if "n < 20" for n
  proof -
    have split: "take (Suc n) fs = take n fs @ [fs ! n]"
      using that len by (simp add: take_Suc_conv_app_nth)
    have nth: "face_detected (fs ! n) = ?bs ! n"
      using that len nth_map [of n fs face_detected] by (simp only: pat)
    have pre: "map face_detected (take n fs @ [fs ! n]) = take (Suc n) ?bs"
      by (simp only: split [symmetric] take_map [symmetric] pat)
    show ?thesis
      using presence_flip_run [OF thr(1,2), of "fs ! n" "take n fs" t0 g]
      by (simp only: split final_state_snoc nth pre thr(3)) simp
  qed
  have early: "\<forall>m\<in>set [0..<19]. \<not> (?bs ! m \<and> trailing True (take (Suc m) ?bs) = 10)"
    using scenario_a_runs unfolding list_all_iff by blast
  have stay: "n \<le> 19 \<Longrightarrow> \<not> is_present (?S n)" for n
  proof (induction n)
    case 0
    show ?case by (simp add: final_state_Nil init_fields)
  next
    case (Suc n)
    then have absent: "\<not> is_present (?S n)" and "n \<in> set [0..<19]" by simp_all
    with early have "\<not> (?bs ! n \<and> trailing True (take (Suc n) ?bs) = 10)" by blast
    with absent flip [of n] Suc.prems show ?case by auto
  qed
  have last: "is_present (?S 20)"
    using flip [of 19] stay [of 19] scenario_a_runs by auto
  show ?thesis
  proof (intro conjI allI impI)
    fix n :: nat
    assume "n < 20"
    then show "\<not> is_present (?S n)" by (simp add: stay)
  next
    show "is_present (final_state source_thresholds fs (init_state t0 g))"
      using last len by simp
  qed
qed

section \<open>Debouncing\<close>

text \<open>
  Claim C1. With positive thresholds, in every session a frame flips the stable presence
  state exactly when its raw signal is the opposite of the stable state and it completes a
  run of exactly \<open>presence_threshold\<close> consecutive frames with that signal; a frame
  whose signal agrees with the stable state puts the progress toward a flip back to 0.
  The same holds for focus. In particular, with the thresholds of the source, a session
  whose frames show a face 9 times, then none, then a face 10 times is absent after each of
  the first 19 frames and present after the 20th.
\<close>

theorem debounce_flips_after_threshold_run:
  assumes "0 < presence_threshold p" "0 < focus_threshold p"
  shows "\<exists>s s'. run_frames p fs (init_state t0 g) = Inr s \<and> frame_step p f s = Inr s'
     \<and> (is_present s' \<noteq> is_present s
          \<longleftrightarrow> face_detected f = (\<not> is_present s)
              \<and> int (trailing (face_detected f) (map face_detected (fs @ [f]))) = presence_threshold p)
     \<and> (is_focused s' \<noteq> is_focused s
          \<longleftrightarrow> focus_detected f = (\<not> is_focused s)
              \<and> int (trailing (focus_detected f) (map focus_detected (fs @ [f]))) = focus_threshold p)
     \<and> (face_detected f = is_present s \<longrightarrow> presence_progress s' = 0)
     \<and> (focus_detected f = is_focused s \<longrightarrow> focus_progress s' = 0)
     \<and> (\<forall>gs. map face_detected gs = replicate 9 True @ [False] @ replicate 10 True
           \<longrightarrow> (\<forall>n<20. \<exists>r. run_frames source_thresholds (take n gs) (init_state t0 g) = Inr r
                            \<and> \<not> is_present r)
               \<and> (\<exists>r. run_frames source_thresholds gs (init_state t0 g) = Inr r \<and> is_present r))"
proof -
  let ?s = "final_state p fs (init_state t0 g)"
  show ?thesis
  proof (intro exI conjI)
    show "run_frames p fs (init_state t0 g) = Inr ?s" by (rule run_frames_Inr)
    show "frame_step p f ?s = Inr (next_state p f ?s)" by (rule frame_step_Inr)
    show "is_present (next_state p f ?s) \<noteq> is_present ?s
          \<longleftrightarrow> face_detected f = (\<not> is_present ?s)
              \<and> int (trailing (face_detected f) (map face_detected (fs @ [f]))) = presence_threshold p"
      by (rule presence_flip_run [OF assms])
    show "is_focused (next_state p f ?s) \<noteq> is_focused ?s
          \<longleftrightarrow> focus_detected f = (\<not> is_focused ?s)
              \<and> int (trailing (focus_detected f) (map focus_detected (fs @ [f]))) = focus_threshold p"
      by (rule focus_flip_run [OF assms])
    show "face_detected f = is_present ?s \<longrightarrow> presence_progress (next_state p f ?s) = 0"
      "focus_detected f = is_focused ?s \<longrightarrow> focus_progress (next_state p f ?s) = 0"
      by (simp_all add: progress_reset)
    show "\<forall>gs. map face_detected gs = replicate 9 True @ [False] @ replicate 10 True
           \<longrightarrow> (\<forall>n<20. \<exists>r. run_frames source_thresholds (take n gs) (init_state t0 g) = Inr r
                            \<and> \<not> is_present r)
               \<and> (\<exists>r. run_frames source_thresholds gs (init_state t0 g) = Inr r \<and> is_present r)"
      using scenario_a_general [of _ t0 g] by (simp add: run_frames_Inr)
  qed
qed

theorem debounce_flips_after_threshold_run_witness:
  "0 < presence_threshold source_thresholds \<and> 0 < focus_threshold source_thresholds
   \<and> map face_detected scenario_a_frames = replicate 9 True @ [False] @ replicate 10 True
   \<and> list_all (\<lambda>n. \<exists>r. run_frames source_thresholds (take n scenario_a_frames)
                       (init_state 0 globals0) = Inr r \<and> \<not> is_present r) [0..<20]
   \<and> (\<exists>r. run_frames source_thresholds scenario_a_frames (init_state 0 globals0) = Inr r
            \<and> is_present r)"
proof -
  have h1: "0 < presence_threshold source_thresholds"
    and h2: "0 < focus_threshold source_thresholds"
    by (simp_all add: source_thresholds_def)
  have pat: "map face_detected scenario_a_frames = replicate 9 True @ [False] @ replicate 10 True"
    by code_simp
  from debounce_flips_after_threshold_run [OF h1 h2, of "[]" 0 globals0 "face_off 0"] pat
  have "(\<forall>n<20. \<exists>r. run_frames source_thresholds (take n scenario_a_frames)
                       (init_state 0 globals0) = Inr r \<and> \<not> is_present r)
        \<and> (\<exists>r. run_frames source_thresholds scenario_a_frames (init_state 0 globals0) = Inr r
              \<and> is_present r)"
    by blast
  with h1 h2 pat show ?thesis by (simp add: list_all_iff)
qed

text \<open>
  Claim C7. With positive thresholds, in every reachable state the progress counter of
  each axis lies between 0 and the threshold; a frame changes the stable state exactly
  when its raw signal is the opposite of the stable state and the progress counter reaches
  the threshold with it, and after such a frame the progress counter is 0. Stable state
  and progress counter evolve as the specification's debounced binary state does.
\<close>

theorem progress_counter_bounded:
  assumes "0 < presence_threshold p" "0 < focus_threshold p"
  shows "\<exists>s s'. run_frames p fs (init_state t0 g) = Inr s \<and> frame_step p f s = Inr s'
     \<and> 0 \<le> presence_progress s \<and> presence_progress s \<le> presence_threshold p
     \<and> 0 \<le> focus_progress s \<and> focus_progress s \<le> focus_threshold p
     \<and> (is_present s' \<noteq> is_present s
          \<longleftrightarrow> face_detected f = (\<not> is_present s)
              \<and> presence_progress s + 1 = presence_threshold p)
     \<and> (is_focused s' \<noteq> is_focused s
          \<longleftrightarrow> focus_detected f = (\<not> is_focused s)
              \<and> focus_progress s + 1 = focus_threshold p)
     \<and> (is_present s' \<noteq> is_present s \<longrightarrow> presence_progress s' = 0)
     \<and> (is_focused s' \<noteq> is_focused s \<longrightarrow> focus_progress s' = 0)
     \<and> (presence_progress s', is_present s')
          = spec_debounced_update (presence_threshold p) (face_detected f)
              (presence_progress s, is_present s)
     \<and> (focus_progress s', is_focused s')
          = spec_debounced_update (focus_threshold p) (focus_detected f)
              (focus_progress s, is_focused s)"
proof -
  let ?s = "final_state p fs (init_state t0 g)"
  have inv: "debounce_inv p ?s" by (rule debounce_inv_final [OF assms])
  note bounds = progress_bounds [OF inv]
  show ?thesis
  proof (intro exI conjI)
    show "run_frames p fs (init_state t0 g) = Inr ?s" by (rule run_frames_Inr)
    show "frame_step p f ?s = Inr (next_state p f ?s)" by (rule frame_step_Inr)
    show "0 \<le> presence_progress ?s" "presence_progress ?s \<le> presence_threshold p"
      "0 \<le> focus_progress ?s" "focus_progress ?s \<le> focus_threshold p"
      using bounds by simp_all
    show "is_present (next_state p f ?s) \<noteq> is_present ?s
          \<longleftrightarrow> face_detected f = (\<not> is_present ?s)
              \<and> presence_progress ?s + 1 = presence_threshold p"
      by (rule presence_flip_iff [OF inv])
    show "is_focused (next_state p f ?s) \<noteq> is_focused ?s
          \<longleftrightarrow> focus_detected f = (\<not> is_focused ?s)
              \<and> focus_progress ?s + 1 = focus_threshold p"
      by (rule focus_flip_iff [OF inv])
    show "is_present (next_state p f ?s) \<noteq> is_present ?s \<longrightarrow> presence_progress (next_state p f ?s) = 0"
      "is_focused (next_state p f ?s) \<noteq> is_focused ?s \<longrightarrow> focus_progress (next_state p f ?s) = 0"
      using progress_after_flip [of p f ?s] by blast+
    show "(presence_progress (next_state p f ?s), is_present (next_state p f ?s))
          = spec_debounced_update (presence_threshold p) (face_detected f)
              (presence_progress ?s, is_present ?s)"
      by (rule progress_refines_spec(1) [OF inv assms])
    show "(focus_progress (next_state p f ?s), is_focused (next_state p f ?s))
          = spec_debounced_update (focus_threshold p) (focus_detected f)
              (focus_progress ?s, is_focused ?s)"
      by (rule progress_refines_spec(2) [OF inv assms])
  qed
qed

theorem progress_counter_bounded_witness:
  "0 < presence_threshold source_thresholds \<and> 0 < focus_threshold source_thresholds
   \<and> (\<exists>s s'. run_frames source_thresholds (map face_on [1, 2, 3, 4, 5, 6, 7, 8, 9])
                (init_state 0 globals0) = Inr s
          \<and> frame_step source_thresholds (face_on 10) s = Inr s'
          \<and> presence_progress s = 9 \<and> \<not> is_present s \<and> is_present s'
          \<and> presence_progress s' = 0)"
proof -
  have h1: "0 < presence_threshold source_thresholds"
    and h2: "0 < focus_threshold source_thresholds"
    by (simp_all add: source_thresholds_def)
  have run: "map_sum id (\<lambda>s. (presence_progress s, is_present s))
      (run_frames source_thresholds (map face_on [1, 2, 3, 4, 5, 6, 7, 8, 9]) (init_state 0 globals0))
    = Inr (9, False)"
    by code_simp
  have ev: "face_detected (face_on 10)" "presence_threshold source_thresholds = 10"
    by code_simp+
  from progress_counter_bounded [OF h1 h2, of "map face_on [1, 2, 3, 4, 5, 6, 7, 8, 9]" 0 globals0 "face_on 10"]
  obtain s s' where a: "run_frames source_thresholds (map face_on [1, 2, 3, 4, 5, 6, 7, 8, 9])
                (init_state 0 globals0) = Inr s"
    and b: "frame_step source_thresholds (face_on 10) s = Inr s'"
    and c: "is_present s' \<noteq> is_present s
          \<longleftrightarrow> face_detected (face_on 10) = (\<not> is_present s)
              \<and> presence_progress s + 1 = presence_threshold source_thresholds"
    and d: "is_present s' \<noteq> is_present s \<longrightarrow> presence_progress s' = 0"
    by blast
  from a run have "presence_progress s = 9" "\<not> is_present s" by simp_all
  with ev c d have "presence_progress s = 9 \<and> \<not> is_present s \<and> is_present s'
          \<and> presence_progress s' = 0"
    by auto
  with a b h1 h2 show ?thesis by blast
qed

section \<open>Time metrics and scores\<close>

lemma final_state_Cons: "final_state p (f # fs) s = final_state p fs (next_state p f s)"
  by (simp add: final_state_def)

lemma start_time_final:
  "start_time (final_state p fs (init_state t0 g)) = last (t0 # map current_time fs)"
  by (induction fs rule: rev_induct)
     (simp_all add: final_state_Nil final_state_snoc init_fields step_simps)

lemma metrics_inv_init: "metrics_inv (init_state t0 g)"
  by (simp add: metrics_inv_def init_fields)

lemma metrics_inv_step:
  assumes "metrics_inv s" "start_time s \<le> current_time f"
  shows "metrics_inv (next_state p f s)"
  using assms unfolding metrics_inv_def
  by (simp only: next_state_core track_times track_clock) (simp split: if_splits)

lemma metrics_mono_step:
  assumes "start_time s \<le> current_time f"
  shows "total_time s \<le> total_time (next_state p f s)
       \<and> present_time s \<le> present_time (next_state p f s)
       \<and> focused_time s \<le> focused_time (next_state p f s)"
  using assms
  by (simp only: next_state_core track_times track_clock) (simp split: if_splits)

lemma metrics_inv_run:
  assumes "metrics_inv s" "sorted (start_time s # map current_time gs)"
  shows "metrics_inv (final_state p gs s)"
  using assms
proof (induction gs arbitrary: s)
  case Nil
  then show ?case by (simp add: final_state_Nil)
next
  case (Cons f gs)
  from Cons.prems have le: "start_time s \<le> current_time f" by simp
  have "metrics_inv (final_state p gs (next_state p f s))"
  proof (rule Cons.IH)
    show "metrics_inv (next_state p f s)" by (rule metrics_inv_step [OF Cons.prems(1) le])
    show "sorted (start_time (next_state p f s) # map current_time gs)"
      using Cons.prems(2) by (simp add: step_simps)
  qed
  then show ?case by (simp add: final_state_Cons)
qed

lemma metrics_mono_run:
  assumes "sorted (start_time s # map current_time gs)"
  shows "total_time s \<le> total_time (final_state p gs s)
       \<and> present_time s \<le> present_time (final_state p gs s)
       \<and> focused_time s \<le> focused_time (final_state p gs s)"
  using assms
proof (induction gs arbitrary: s)
  case Nil
  then show ?case by (simp add: final_state_Nil)
next
  case (Cons f gs)
  from Cons.prems have le: "start_time s \<le> current_time f" by simp
  have "sorted (start_time (next_state p f s) # map current_time gs)"
    using Cons.prems by (simp add: step_simps)
  from Cons.IH [OF this] metrics_mono_step [OF le, of p]
  show ?case by (simp only: final_state_Cons) linarith
qed

lemma sorted_split:
  assumes "sorted (t0 # map current_time (fs @ gs))"
  shows "sorted (t0 # map current_time fs)"
    and "sorted (last (t0 # map current_time fs) # map current_time gs)"
proof -
  have "sorted ((t0 # map current_time fs) @ map current_time gs)"
    using assms by simp
  then have parts: "sorted (t0 # map current_time fs) \<and> sorted (map current_time gs)
      \<and> (\<forall>x\<in>set (t0 # map current_time fs). \<forall>y\<in>set (map current_time gs). x \<le> y)"
    by (rule sorted_append [THEN iffD1])
  then show "sorted (t0 # map current_time fs)" by blast
  have "last (t0 # map current_time fs) \<in> set (t0 # map current_time fs)"
    by (rule last_in_set) simp
  with parts have "\<forall>y\<in>set (map current_time gs). last (t0 # map current_time fs) \<le> y"
    by blast
  with parts show "sorted (last (t0 # map current_time fs) # map current_time gs)"
    by simp
qed

lemma metrics_inv_final:
  assumes "sorted (t0 # map current_time fs)"
  shows "metrics_inv (final_state p fs (init_state t0 g))"
proof (rule metrics_inv_run [OF metrics_inv_init])
  show "sorted (start_time (init_state t0 g) # map current_time fs)"
    using assms by (simp add: init_fields)
qed

text \<open>
  Claim C3. In a session whose clock readings never decrease (starting from the reading
  taken before the loop), at every point \<open>total_time\<close>, \<open>present_time\<close> and
  \<open>focused_time\<close> are non-negative, \<open>present_time\<close> and \<open>focused_time\<close> are at most
  \<open>total_time\<close>, and none of the three is larger than it is at any later point.
\<close>

theorem elapsed_times_monotone:
  assumes "sorted (t0 # map current_time (fs @ gs))"
  shows "\<exists>s s'. run_frames p fs (init_state t0 g) = Inr s
     \<and> run_frames p (fs @ gs) (init_state t0 g) = Inr s'
     \<and> 0 \<le> total_time s \<and> 0 \<le> present_time s \<and> 0 \<le> focused_time s
     \<and> present_time s \<le> total_time s \<and> focused_time s \<le> total_time s
     \<and> total_time s \<le> total_time s' \<and> present_time s \<le> present_time s'
     \<and> focused_time s \<le> focused_time s'"
proof -
  let ?s = "final_state p fs (init_state t0 g)"
  let ?s' = "final_state p (fs @ gs) (init_state t0 g)"
  have inv: "metrics_inv ?s" by (rule metrics_inv_final [OF sorted_split(1) [OF assms]])
  have "sorted (start_time ?s # map current_time gs)"
    using sorted_split(2) [OF assms] by (simp only: start_time_final)
  from metrics_mono_run [OF this, of p]
  have mono: "total_time ?s \<le> total_time ?s'" "present_time ?s \<le> present_time ?s'"
    "focused_time ?s \<le> focused_time ?s'"
    by (simp_all only: final_state_append)
  show ?thesis
  proof (intro exI conjI)
    show "run_frames p fs (init_state t0 g) = Inr ?s" by (rule run_frames_Inr)
    show "run_frames p (fs @ gs) (init_state t0 g) = Inr ?s'" by (rule run_frames_Inr)
    show "0 \<le> total_time ?s" "0 \<le> present_time ?s" "0 \<le> focused_time ?s"
      "present_time ?s \<le> total_time ?s" "focused_time ?s \<le> total_time ?s"
      using inv unfolding metrics_inv_def by linarith+
    show "total_time ?s \<le> total_time ?s'" "present_time ?s \<le> present_time ?s'"
      "focused_time ?s \<le> focused_time ?s'"
      by (rule mono)+
  qed
qed

lemma focused_le_present_step:
  assumes "is_focused (next_state p f s) \<longrightarrow> is_present (next_state p f s)"
    "start_time s \<le> current_time f" "focused_time s \<le> present_time s"
  shows "focused_time (next_state p f s) \<le> present_time (next_state p f s)"
  using assms
  by (simp only: next_state_core track_times) (simp split: if_splits)

lemma focused_le_present_final:
  assumes "presence_threshold p = focus_threshold p" "0 < focus_threshold p"
    "sorted (t0 # map current_time fs)"
  shows "focused_time (final_state p fs (init_state t0 g))
         \<le> present_time (final_state p fs (init_state t0 g))"
  using assms(3)
proof (induction fs rule: rev_induct)
  case Nil
  show ?case by (simp add: final_state_Nil init_fields)
next
  case (snoc f fs)
  let ?s = "final_state p fs (init_state t0 g)"
  from snoc.prems have srt: "sorted (t0 # map current_time fs)"
    and le: "start_time ?s \<le> current_time f"
    using sorted_split [of t0 fs "[f]"] by (simp_all only: start_time_final) simp_all
  have "coupled_inv p (next_state p f ?s)"
    using coupled_inv_final [OF assms(1,2), of "fs @ [f]" t0 g] by (simp only: final_state_snoc)
  then have "is_focused (next_state p f ?s) \<longrightarrow> is_present (next_state p f ?s)"
    unfolding coupled_inv_def by blast
  from focused_le_present_step [OF this le snoc.IH [OF srt]]
  show ?case by (simp only: final_state_snoc)
qed

lemma pct_bounds:
  assumes "0 \<le> a" "a \<le> b"
  shows "0 \<le> pct a b" "pct a b \<le> 100"
  using assms by (auto simp add: pct_def divide_le_eq)

lemma pct_zero_denominator: "pct a 0 = 0"
  by (simp add: pct_def)

lemma scores_final:
  "presence_score (final_state p (fs @ [f]) s)
     = Some (pct (present_time (final_state p (fs @ [f]) s)) (total_time (final_state p (fs @ [f]) s)))"
  "focus_score (final_state p (fs @ [f]) s)
     = Some (pct (focused_time (final_state p (fs @ [f]) s)) (present_time (final_state p (fs @ [f]) s)))"
  "overall_score (final_state p (fs @ [f]) s)
     = Some (pct (focused_time (final_state p (fs @ [f]) s)) (total_time (final_state p (fs @ [f]) s)))"
  by (simp_all only: final_state_snoc next_state_scores next_state_core)

lemma first_frame_state:
  "total_time (next_state source_thresholds f (init_state t0 g)) = current_time f - t0"
  "present_time (next_state source_thresholds f (init_state t0 g)) = 0"
  "focused_time (next_state source_thresholds f (init_state t0 g)) = 0"
  "\<not> is_present (next_state source_thresholds f (init_state t0 g))"
  "\<not> is_focused (next_state source_thresholds f (init_state t0 g))"
  by (simp_all add: step_simps init_fields source_thresholds_def)


theorem elapsed_times_monotone_witness:
  "sorted (0 # map current_time (map face_on [1, 2, 3] @ map face_off [4, 5]))
   \<and> (\<exists>s s'. run_frames source_thresholds (map face_on [1, 2, 3]) (init_state 0 globals0) = Inr s
        \<and> run_frames source_thresholds (map face_on [1, 2, 3] @ map face_off [4, 5])
             (init_state 0 globals0) = Inr s'
        \<and> total_time s = 3 \<and> total_time s' = 5 \<and> total_time s \<le> total_time s'
        \<and> 0 \<le> present_time s \<and> present_time s \<le> present_time s')"
proof -
  have h: "sorted (0 # map current_time (map face_on [1, 2, 3] @ map face_off [4, 5]))"
    by (simp add: face_on_def face_off_def)
  have ev: "map_sum id total_time
      (run_frames source_thresholds (map face_on [1, 2, 3]) (init_state 0 globals0)) = Inr 3"
    "map_sum id total_time
      (run_frames source_thresholds (map face_on [1, 2, 3] @ map face_off [4, 5])
         (init_state 0 globals0)) = Inr 5"
    by code_simp+
  from elapsed_times_monotone [OF h, of source_thresholds globals0]
  obtain s s' where
    a: "run_frames source_thresholds (map face_on [1, 2, 3]) (init_state 0 globals0) = Inr s"
    and b: "run_frames source_thresholds (map face_on [1, 2, 3] @ map face_off [4, 5])
             (init_state 0 globals0) = Inr s'"
    and c: "total_time s \<le> total_time s'" "0 \<le> present_time s"
      "present_time s \<le> present_time s'"
    by blast
  from a b ev have "total_time s = 3" "total_time s' = 5" by simp_all
  with a b c h show ?thesis by blast
qed

text \<open>
  Claim C10. The raw focus signal is only true on a frame with a face. With a common
  positive threshold for both axes, as in the source, after every frame of a session
  \<open>is_focused\<close> implies \<open>is_present\<close>; when the clock readings never decrease,
  \<open>focused_time\<close> is at most \<open>present_time\<close> and the focus score is at most 100.
\<close>

theorem focused_implies_present:
  assumes "presence_threshold p = focus_threshold p" "0 < focus_threshold p"
    "sorted (t0 # map current_time fs)"
  shows "(\<forall>f. focus_detected f \<longrightarrow> face_detected f)
     \<and> (\<exists>s. run_frames p fs (init_state t0 g) = Inr s
          \<and> (is_focused s \<longrightarrow> is_present s)
          \<and> focused_time s \<le> present_time s
          \<and> (\<forall>v. focus_score s = Some v \<longrightarrow> v \<le> 100))"
proof -
  let ?s = "final_state p fs (init_state t0 g)"
  have cpl: "is_focused ?s \<longrightarrow> is_present ?s"
    using coupled_inv_final [OF assms(1,2), of fs t0 g] unfolding coupled_inv_def by blast
  have le: "focused_time ?s \<le> present_time ?s"
    by (rule focused_le_present_final [OF assms])
  have nonneg: "0 \<le> focused_time ?s"
    using metrics_inv_final [OF assms(3), of p g] unfolding metrics_inv_def by blast
  have score: "\<forall>v. focus_score ?s = Some v \<longrightarrow> v \<le> 100"
  proof (cases fs rule: rev_cases)
    case Nil
    then show ?thesis by (simp add: final_state_Nil init_fields)
  next
    case (snoc gs f)
    have "focus_score ?s = Some (pct (focused_time ?s) (present_time ?s))"
      unfolding snoc by (rule scores_final)
    with pct_bounds(2) [OF nonneg le] show ?thesis by simp
  qed
  show ?thesis
  proof (intro conjI exI allI impI)
    fix f assume "focus_detected f"
    then show "face_detected f" by (rule focus_needs_face)
  next
    show "run_frames p fs (init_state t0 g) = Inr ?s" by (rule run_frames_Inr)
  next
    assume "is_focused ?s"
    with cpl show "is_present ?s" by blast
  next
    show "focused_time ?s \<le> present_time ?s" by (rule le)
  next
    fix v assume "focus_score ?s = Some v"
    with score show "v \<le> 100" by blast
  qed
qed

theorem focused_implies_present_witness:
  "presence_threshold source_thresholds = focus_threshold source_thresholds
   \<and> 0 < focus_threshold source_thresholds
   \<and> sorted (0 # map current_time stalled_clock_frames)
   \<and> (\<exists>s. run_frames source_thresholds stalled_clock_frames (init_state 0 globals0) = Inr s
        \<and> is_focused s \<and> is_present s \<and> focused_time s = 10 \<and> present_time s = 10
        \<and> focused_time s \<le> present_time s \<and> focus_score s = Some 100)"
proof -
  have h1: "presence_threshold source_thresholds = focus_threshold source_thresholds"
    and h2: "0 < focus_threshold source_thresholds"
    by (simp_all add: source_thresholds_def)
  have h3: "sorted (0 # map current_time stalled_clock_frames)"
    by (simp add: stalled_clock_frames_def face_on_def face_off_def)
  have ev: "map_sum id (\<lambda>s. (is_focused s, focused_time s, present_time s, focus_score s))
      (run_frames source_thresholds stalled_clock_frames (init_state 0 globals0))
      = Inr (True, 10, 10, Some 100)"
    by code_simp
  from focused_implies_present [OF h1 h2 h3, of globals0]
  obtain s where
    a: "run_frames source_thresholds stalled_clock_frames (init_state 0 globals0) = Inr s"
    and b: "is_focused s \<longrightarrow> is_present s" "focused_time s \<le> present_time s"
    by blast
  from a ev have "is_focused s" "focused_time s = 10" "present_time s = 10"
    "focus_score s = Some 100"
    by simp_all
  with a b h1 h2 h3 show ?thesis by blast
qed

text \<open>
  Claim C4. After every frame of a session with non-decreasing clock readings (and a
  common positive threshold, as in the source) the three scores lie between 0 and 100,
  and a score is 0 when its denominator is 0. The score expression never raises
  \<open>ZeroDivisionError\<close>, whatever its arguments, and no iteration of the loop raises. After
  the first frame of a session all three scores are 0.
\<close>

theorem scores_within_bounds:
  assumes "presence_threshold p = focus_threshold p" "0 < focus_threshold p"
    "sorted (t0 # map current_time (fs @ [f]))"
  shows "(\<exists>s ps fr os. run_frames p (fs @ [f]) (init_state t0 g) = Inr s
          \<and> presence_score s = Some ps \<and> focus_score s = Some fr \<and> overall_score s = Some os
          \<and> 0 \<le> ps \<and> ps \<le> 100 \<and> 0 \<le> fr \<and> fr \<le> 100 \<and> 0 \<le> os \<and> os \<le> 100
          \<and> (total_time s = 0 \<longrightarrow> ps = 0 \<and> os = 0)
          \<and> (present_time s = 0 \<longrightarrow> fr = 0))
     \<and> (\<forall>a b. \<exists>v. score_of a b = Inr v)
     \<and> (\<forall>q f0 s0. \<exists>s1. frame_step q f0 s0 = Inr s1)
     \<and> (\<forall>f0. \<exists>s1. run_frames source_thresholds [f0] (init_state t0 g) = Inr s1
           \<and> presence_score s1 = Some 0 \<and> focus_score s1 = Some 0 \<and> overall_score s1 = Some 0)"
proof -
  let ?s = "final_state p (fs @ [f]) (init_state t0 g)"
  have inv: "metrics_inv ?s" by (rule metrics_inv_final [OF assms(3)])
  have le: "focused_time ?s \<le> present_time ?s"
    by (rule focused_le_present_final [OF assms])
  from inv have m: "0 \<le> present_time ?s" "0 \<le> focused_time ?s"
    "present_time ?s \<le> total_time ?s" "focused_time ?s \<le> total_time ?s"
    unfolding metrics_inv_def by blast+
  have first: "\<exists>s1. run_frames source_thresholds [f0] (init_state t0 g) = Inr s1
           \<and> presence_score s1 = Some 0 \<and> focus_score s1 = Some 0 \<and> overall_score s1 = Some 0"
    for f0
  proof (intro exI conjI)
    let ?n = "next_state source_thresholds f0 (init_state t0 g)"
    show "run_frames source_thresholds [f0] (init_state t0 g) = Inr ?n"
      by (simp add: frame_step_Inr)
    have z: "present_time (track source_thresholds f0 (init_state t0 g)) = 0"
      "focused_time (track source_thresholds f0 (init_state t0 g)) = 0"
      using first_frame_state(2,3) [of f0 t0 g] by (simp_all only: next_state_core)
    show "presence_score ?n = Some 0" "focus_score ?n = Some 0" "overall_score ?n = Some 0"
      by (simp_all add: next_state_scores z pct_def)
  qed
  show ?thesis
  proof (intro conjI allI)
    show "\<exists>s ps fr os. run_frames p (fs @ [f]) (init_state t0 g) = Inr s
          \<and> presence_score s = Some ps \<and> focus_score s = Some fr \<and> overall_score s = Some os
          \<and> 0 \<le> ps \<and> ps \<le> 100 \<and> 0 \<le> fr \<and> fr \<le> 100 \<and> 0 \<le> os \<and> os \<le> 100
          \<and> (total_time s = 0 \<longrightarrow> ps = 0 \<and> os = 0)
          \<and> (present_time s = 0 \<longrightarrow> fr = 0)"
    proof (intro exI conjI impI)
      show "run_frames p (fs @ [f]) (init_state t0 g) = Inr ?s" by (rule run_frames_Inr)
      show "presence_score ?s = Some (pct (present_time ?s) (total_time ?s))"
        "focus_score ?s = Some (pct (focused_time ?s) (present_time ?s))"
        "overall_score ?s = Some (pct (focused_time ?s) (total_time ?s))"
        by (rule scores_final)+
      show "0 \<le> pct (present_time ?s) (total_time ?s)" "pct (present_time ?s) (total_time ?s) \<le> 100"
        by (rule pct_bounds [OF m(1) m(3)])+
      show "0 \<le> pct (focused_time ?s) (present_time ?s)" "pct (focused_time ?s) (present_time ?s) \<le> 100"
        by (rule pct_bounds [OF m(2) le])+
      show "0 \<le> pct (focused_time ?s) (total_time ?s)" "pct (focused_time ?s) (total_time ?s) \<le> 100"
        by (rule pct_bounds [OF m(2) m(4)])+
    next
      assume "total_time ?s = 0"
      then show "pct (present_time ?s) (total_time ?s) = 0" "pct (focused_time ?s) (total_time ?s) = 0"
        by (simp_all add: pct_zero_denominator)
    next
      assume "present_time ?s = 0"
      then show "pct (focused_time ?s) (present_time ?s) = 0"
        by (simp add: pct_zero_denominator)
    qed
  next
    fix a b show "\<exists>v. score_of a b = Inr v" by (simp add: score_of_Inr)
  next
    fix q f0 s0 show "\<exists>s1. frame_step q f0 s0 = Inr s1" by (simp add: frame_step_Inr)
  next
    fix f0 show "\<exists>s1. run_frames source_thresholds [f0] (init_state t0 g) = Inr s1
           \<and> presence_score s1 = Some 0 \<and> focus_score s1 = Some 0 \<and> overall_score s1 = Some 0"
      by (rule first)
  qed
qed


theorem scores_within_bounds_witness:
  "presence_threshold source_thresholds = focus_threshold source_thresholds
   \<and> 0 < focus_threshold source_thresholds
   \<and> sorted (0 # map current_time (map face_on [1, 2, 3, 4, 5, 6, 7, 8, 9, 10] @ [face_on 20]))
   \<and> (\<exists>s ps fr os. run_frames source_thresholds
            (map face_on [1, 2, 3, 4, 5, 6, 7, 8, 9, 10] @ [face_on 20]) (init_state 0 globals0) = Inr s
        \<and> presence_score s = Some ps \<and> focus_score s = Some fr \<and> overall_score s = Some os
        \<and> ps = 55 \<and> fr = 100 \<and> os = 55
        \<and> 0 \<le> ps \<and> ps \<le> 100 \<and> 0 \<le> fr \<and> fr \<le> 100 \<and> 0 \<le> os \<and> os \<le> 100)"
proof -
  have h1: "presence_threshold source_thresholds = focus_threshold source_thresholds"
    and h2: "0 < focus_threshold source_thresholds"
    by (simp_all add: source_thresholds_def)
  have h3: "sorted (0 # map current_time (map face_on [1, 2, 3, 4, 5, 6, 7, 8, 9, 10] @ [face_on 20]))"
    by (simp add: face_on_def)
  have ev: "map_sum id (\<lambda>s. (presence_score s, focus_score s, overall_score s))
      (run_frames source_thresholds (map face_on [1, 2, 3, 4, 5, 6, 7, 8, 9, 10] @ [face_on 20])
         (init_state 0 globals0))
      = Inr (Some 55, Some 100, Some 55)"
    by code_simp
  from scores_within_bounds [OF h1 h2 h3, of globals0]
  obtain s ps fr os where
    a: "run_frames source_thresholds (map face_on [1, 2, 3, 4, 5, 6, 7, 8, 9, 10] @ [face_on 20])
          (init_state 0 globals0) = Inr s"
    and b: "presence_score s = Some ps" "focus_score s = Some fr" "overall_score s = Some os"
    and c: "0 \<le> ps" "ps \<le> 100" "0 \<le> fr" "fr \<le> 100" "0 \<le> os" "os \<le> 100"
    by blast
  from a b ev have "ps = 55" "fr = 100" "os = 55" by simp_all
  with a b c h1 h2 h3 show ?thesis by blast
qed

text \<open>
  Claim C8, as stated, fails: \<open>start_time\<close> is read before the loop, so the first frame's
  \<open>time_diff\<close> is the time since then. With the clock at 0 before the loop and at 1 on the
  first frame, \<open>total_time\<close> is 1 after that frame.
\<close>

theorem first_frame_delta_counterexample:
  "\<exists>s. run_frames source_thresholds [face_off 1] (init_state 0 globals0) = Inr s
       \<and> total_time s = 1 \<and> total_time s \<noteq> 0"
proof -
  have "map_sum id total_time
      (run_frames source_thresholds [face_off 1] (init_state 0 globals0)) = Inr 1"
    by code_simp
  then show ?thesis by (auto simp add: run_frames_Inr)
qed

text \<open>
  Claim C8, amended. After the first frame of a session \<open>total_time\<close> is the clock reading
  of that frame minus the reading taken before the loop, and neither \<open>present_time\<close> nor
  \<open>focused_time\<close> has accrued any time: both stable states are still false.
\<close>

theorem first_frame_elapsed:
  "\<exists>s. run_frames source_thresholds [f] (init_state t0 g) = Inr s
       \<and> total_time s = current_time f - t0
       \<and> present_time s = 0 \<and> focused_time s = 0
       \<and> \<not> is_present s \<and> \<not> is_focused s"
proof (intro exI conjI)
  show "run_frames source_thresholds [f] (init_state t0 g)
        = Inr (next_state source_thresholds f (init_state t0 g))"
    by (simp add: frame_step_Inr)
qed (rule first_frame_state)+

theorem first_frame_elapsed_witness:
  "\<exists>s. run_frames source_thresholds [face_on 3] (init_state 1 globals0) = Inr s
       \<and> total_time s = 2 \<and> present_time s = 0 \<and> focused_time s = 0"
  using first_frame_elapsed [of "face_on 3" 1 globals0]
  by (auto simp add: face_on_def)

section \<open>The event log\<close>

lemma run_frames_snoc:
  "run_frames p (fs @ [f]) s0
     = (case run_frames p fs s0 of Inl e \<Rightarrow> Inl e | Inr s \<Rightarrow> frame_step p f s)"
  by (simp add: run_frames_Inr frame_step_Inr final_state_snoc)

lemma interval_of_snoc:
  assumes "i < j" "j < length fs"
  shows "interval_of (fs @ [f]) i j = interval_of fs i j"
  using assms by (simp add: interval_of_def nth_append)

lemma interval_of_last:
  assumes "i < length fs"
  shows "interval_of (fs @ [f]) i (length fs)
         = \<lparr>ev_start = clock_string f (current_time (fs ! i)),
            ev_end = clock_string f (current_time f),
            duration = current_time f - current_time (fs ! i)\<rparr>"
  using assms by (simp add: interval_of_def nth_append)

lemma interval_kept:
  assumes "\<exists>i j. i < j \<and> j < length fs \<and> e = interval_of fs i j"
  shows "\<exists>i j. i < j \<and> j < length (fs @ [f]) \<and> e = interval_of (fs @ [f]) i j"
proof -
  from assms obtain i j where ij: "i < j" "j < length fs" and e: "e = interval_of fs i j"
    by blast
  from ij have "j < length (fs @ [f])" by simp
  moreover from e have "e = interval_of (fs @ [f]) i j"
    by (simp only: interval_of_snoc [OF ij])
  ultimately show ?thesis using ij(1) by blast
qed

lemma interval_closed:
  assumes "\<exists>i<length fs. st = current_time (fs ! i)"
  shows "\<exists>i j. i < j \<and> j < length (fs @ [f])
           \<and> \<lparr>ev_start = clock_string f st, ev_end = clock_string f (current_time f),
               duration = current_time f - st\<rparr> = interval_of (fs @ [f]) i j"
proof -
  from assms obtain i where i: "i < length fs" and st: "st = current_time (fs ! i)" by blast
  have "length fs < length (fs @ [f])" by simp
  moreover have "\<lparr>ev_start = clock_string f st, ev_end = clock_string f (current_time f),
               duration = current_time f - st\<rparr> = interval_of (fs @ [f]) i (length fs)"
    by (simp only: interval_of_last [OF i] st)
  ultimately show ?thesis using i by blast
qed

lemma pending_kept:
  assumes "\<exists>i<length fs. st = current_time (fs ! i)"
  shows "\<exists>i<length (fs @ [f]). st = current_time ((fs @ [f]) ! i)"
proof -
  from assms obtain i where i: "i < length fs" and st: "st = current_time (fs ! i)" by blast
  from i have "i < length (fs @ [f])" "(fs @ [f]) ! i = fs ! i" by (simp_all add: nth_append)
  with st show ?thesis by metis
qed

lemma pending_opened: "\<exists>i<length (fs @ [f]). current_time f = current_time ((fs @ [f]) ! i)"
proof -
  have "length fs < length (fs @ [f])" "(fs @ [f]) ! length fs = f" by simp_all
  then show ?thesis by metis
qed

lemma events_inv_final:
  "(\<forall>e\<in>set (absence_events (final_state p fs (init_state t0 g))).
       \<exists>i j. i < j \<and> j < length fs \<and> e = interval_of fs i j)
   \<and> (\<forall>e\<in>set (distraction_events (final_state p fs (init_state t0 g))).
       \<exists>i j. i < j \<and> j < length fs \<and> e = interval_of fs i j)
   \<and> (\<forall>st. current_absence (final_state p fs (init_state t0 g)) = Some st
         \<longrightarrow> (\<exists>i<length fs. st = current_time (fs ! i)))
   \<and> (\<forall>st. current_distraction (final_state p fs (init_state t0 g)) = Some st
         \<longrightarrow> (\<exists>i<length fs. st = current_time (fs ! i)))"
proof (induction fs rule: rev_induct)
  case Nil
  show ?case by (simp add: final_state_Nil init_fields)
next
  case (snoc f fs)
  let ?s = "final_state p fs (init_state t0 g)"
  from snoc have old_a: "\<forall>e\<in>set (absence_events ?s).
       \<exists>i j. i < j \<and> j < length fs \<and> e = interval_of fs i j"
    and old_d: "\<forall>e\<in>set (distraction_events ?s).
       \<exists>i j. i < j \<and> j < length fs \<and> e = interval_of fs i j"
    and pend_a: "\<forall>st. current_absence ?s = Some st
         \<longrightarrow> (\<exists>i<length fs. st = current_time (fs ! i))"
    and pend_d: "\<forall>st. current_distraction ?s = Some st
         \<longrightarrow> (\<exists>i<length fs. st = current_time (fs ! i))"
    by blast+
  have a: "\<forall>e\<in>set (absence_events (next_state p f ?s)).
       \<exists>i j. i < j \<and> j < length (fs @ [f]) \<and> e = interval_of (fs @ [f]) i j"
    using old_a pend_a interval_kept [of fs _ f] interval_closed [of fs _ f]
    by (auto simp add: step_simps split: option.splits)
  have b: "\<forall>e\<in>set (distraction_events (next_state p f ?s)).
       \<exists>i j. i < j \<and> j < length (fs @ [f]) \<and> e = interval_of (fs @ [f]) i j"
    using old_d pend_d interval_kept [of fs _ f] interval_closed [of fs _ f]
    by (auto simp add: step_simps split: option.splits)
  have c: "\<forall>st. current_absence (next_state p f ?s) = Some st
         \<longrightarrow> (\<exists>i<length (fs @ [f]). st = current_time ((fs @ [f]) ! i))"
    using pend_a pending_kept [of fs _ f] pending_opened [of fs f]
    by (auto simp add: step_simps split: if_splits)
  have d: "\<forall>st. current_distraction (next_state p f ?s) = Some st
         \<longrightarrow> (\<exists>i<length (fs @ [f]). st = current_time ((fs @ [f]) ! i))"
    using pend_d pending_kept [of fs _ f] pending_opened [of fs f]
    by (auto simp add: step_simps split: if_splits)
  from a b c d show ?case by (simp only: final_state_snoc)
qed

lemma interval_duration_positive:
  assumes "sorted_wrt (<) (map current_time fs)" "i < j" "j < length fs"
  shows "0 < duration (interval_of fs i j)"
proof -
  from assms have "map current_time fs ! i < map current_time fs ! j"
    by (intro sorted_wrt_nth_less) simp_all
  with assms(2,3) show ?thesis by (simp add: interval_of_def)
qed

lemma absence_closed:
  assumes "\<not> is_present s" "is_present (next_state p f s)" "current_absence s = Some st"
  shows "absence_events (next_state p f s)
           = absence_events s @ [\<lparr>ev_start = clock_string f st,
                                   ev_end = clock_string f (current_time f),
                                   duration = current_time f - st\<rparr>]
         \<and> current_absence (next_state p f s) = None"
  using assms by (auto simp add: step_simps split: if_splits)

lemma distraction_closed:
  assumes "\<not> is_focused s" "is_focused (next_state p f s)" "current_distraction s = Some st"
  shows "distraction_events (next_state p f s)
           = distraction_events s @ [\<lparr>ev_start = clock_string f st,
                                       ev_end = clock_string f (current_time f),
                                       duration = current_time f - st\<rparr>]
         \<and> current_distraction (next_state p f s) = None"
  using assms by (auto simp add: step_simps split: if_splits)

text \<open>
  Claim C2, as stated, fails where it says that every closed interval ends after it
  started. An event holds its start and end as times of day printed to the second, so an
  interval within one clock second is stored with equal start and end although the clock
  strictly increases, as in \<open>brief_absence_frames\<close>. Nor do the readings themselves have to
  differ: in \<open>stalled_clock_frames\<close>, whose readings never decrease, the absence opened at
  reading 20 is closed at reading 20, with duration 0.
\<close>

theorem closed_interval_positive_counterexample:
  "sorted_wrt (<) (map current_time brief_absence_frames)
   \<and> (\<exists>s. run_frames source_thresholds brief_absence_frames (init_state 0 globals0) = Inr s
        \<and> absence_events s
            = [\<lparr>ev_start = ''00:00:20'', ev_end = ''00:00:20'', duration = 1 / 2\<rparr>])
   \<and> sorted (0 # map current_time stalled_clock_frames)
   \<and> (\<exists>s. run_frames source_thresholds stalled_clock_frames (init_state 0 globals0) = Inr s
        \<and> absence_events s
            = [\<lparr>ev_start = ''00:00:20'', ev_end = ''00:00:20'', duration = 0\<rparr>])"
proof -
  have h1: "sorted_wrt (<) (map current_time brief_absence_frames)"
    by (simp add: brief_absence_frames_def face_on_def face_off_def)
  have h2: "sorted (0 # map current_time stalled_clock_frames)"
    by (simp add: stalled_clock_frames_def face_on_def face_off_def)
  have ev1: "map_sum id absence_events
      (run_frames source_thresholds brief_absence_frames (init_state 0 globals0))
      = Inr [\<lparr>ev_start = ''00:00:20'', ev_end = ''00:00:20'', duration = 1 / 2\<rparr>]"
    by code_simp
  have ev2: "map_sum id absence_events
      (run_frames source_thresholds stalled_clock_frames (init_state 0 globals0))
      = Inr [\<lparr>ev_start = ''00:00:20'', ev_end = ''00:00:20'', duration = 0\<rparr>]"
    by code_simp
  from ev1 have r1: "\<exists>s. run_frames source_thresholds brief_absence_frames (init_state 0 globals0) = Inr s
        \<and> absence_events s
            = [\<lparr>ev_start = ''00:00:20'', ev_end = ''00:00:20'', duration = 1 / 2\<rparr>]"
    by (simp add: run_frames_Inr)
  from ev2 have r2: "\<exists>s. run_frames source_thresholds stalled_clock_frames (init_state 0 globals0) = Inr s
        \<and> absence_events s
            = [\<lparr>ev_start = ''00:00:20'', ev_end = ''00:00:20'', duration = 0\<rparr>]"
    by (simp add: run_frames_Inr)
  show ?thesis by (intro conjI) (rule h1 r1 h2 r2)+
qed

text \<open>
  Claim C2, amended. When presence goes from absent to present while an absence opened at
  \<open>st\<close> is pending, exactly one event is appended to \<open>absence_events\<close>, holding \<open>st\<close> and
  the frame's clock reading printed as local times of day and their difference as
  duration, and the pending slot is cleared; likewise for focus and
  \<open>distraction_events\<close>. Every event in either list holds the printed readings of an
  earlier and a later frame of the session and, as duration, the later reading minus the
  earlier; in a session whose clock readings strictly increase from frame to frame every
  duration is positive.
\<close>

theorem closed_intervals_well_formed:
  "\<exists>s s'. run_frames p fs (init_state t0 g) = Inr s \<and> frame_step p f s = Inr s'
     \<and> (\<forall>st. \<not> is_present s \<and> is_present s' \<and> current_absence s = Some st
           \<longrightarrow> absence_events s'
                 = absence_events s @ [\<lparr>ev_start = clock_string f st,
                                         ev_end = clock_string f (current_time f),
                                         duration = current_time f - st\<rparr>]
               \<and> current_absence s' = None)
     \<and> (\<forall>st. \<not> is_focused s \<and> is_focused s' \<and> current_distraction s = Some st
           \<longrightarrow> distraction_events s'
                 = distraction_events s @ [\<lparr>ev_start = clock_string f st,
                                             ev_end = clock_string f (current_time f),
                                             duration = current_time f - st\<rparr>]
               \<and> current_distraction s' = None)
     \<and> (\<forall>e\<in>set (absence_events s') \<union> set (distraction_events s').
           \<exists>i j. i < j \<and> j < length (fs @ [f]) \<and> e = interval_of (fs @ [f]) i j)
     \<and> (sorted_wrt (<) (map current_time (fs @ [f]))
          \<longrightarrow> (\<forall>e\<in>set (absence_events s') \<union> set (distraction_events s'). 0 < duration e))"
proof -
  let ?s = "final_state p fs (init_state t0 g)"
  let ?s' = "next_state p f ?s"
  note all = events_inv_final [of p "fs @ [f]" t0 g, unfolded final_state_snoc]
  note inv_a = all [THEN conjunct1]
  note inv_d = all [THEN conjunct2, THEN conjunct1]
  have inv: "\<forall>e\<in>set (absence_events ?s') \<union> set (distraction_events ?s').
           \<exists>i j. i < j \<and> j < length (fs @ [f]) \<and> e = interval_of (fs @ [f]) i j"
  proof
    fix e assume "e \<in> set (absence_events ?s') \<union> set (distraction_events ?s')"
    then show "\<exists>i j. i < j \<and> j < length (fs @ [f]) \<and> e = interval_of (fs @ [f]) i j"
    proof
      assume "e \<in> set (absence_events ?s')"
      then show ?thesis by (rule bspec [OF inv_a])
    next
      assume "e \<in> set (distraction_events ?s')"
      then show ?thesis by (rule bspec [OF inv_d])
    qed
  qed
  have pos: "\<forall>e\<in>set (absence_events ?s') \<union> set (distraction_events ?s'). 0 < duration e"
    if strict: "sorted_wrt (<) (map current_time (fs @ [f]))"
  proof
    fix e assume "e \<in> set (absence_events ?s') \<union> set (distraction_events ?s')"
    then have "\<exists>i j. i < j \<and> j < length (fs @ [f]) \<and> e = interval_of (fs @ [f]) i j"
      by (rule bspec [OF inv])
    then obtain i j where ij: "i < j" "j < length (fs @ [f])"
      and e: "e = interval_of (fs @ [f]) i j"
      by (elim exE conjE)
    show "0 < duration e"
      unfolding e by (rule interval_duration_positive [OF strict ij])
  qed
  show ?thesis
  proof (intro exI conjI allI impI)
    show "run_frames p fs (init_state t0 g) = Inr ?s" by (rule run_frames_Inr)
    show "frame_step p f ?s = Inr ?s'" by (rule frame_step_Inr)
    show "\<forall>e\<in>set (absence_events ?s') \<union> set (distraction_events ?s').
           \<exists>i j. i < j \<and> j < length (fs @ [f]) \<and> e = interval_of (fs @ [f]) i j"
      by (rule inv)
  next
    assume "sorted_wrt (<) (map current_time (fs @ [f]))"
    then show "\<forall>e\<in>set (absence_events ?s') \<union> set (distraction_events ?s'). 0 < duration e"
      by (rule pos)
  next
    fix st assume "\<not> is_present ?s \<and> is_present ?s' \<and> current_absence ?s = Some st"
    then have *: "absence_events ?s'
           = absence_events ?s @ [\<lparr>ev_start = clock_string f st,
                                   ev_end = clock_string f (current_time f),
                                   duration = current_time f - st\<rparr>]
         \<and> current_absence ?s' = None"
      using absence_closed [of ?s p f st] by blast
    from * show "absence_events ?s'
           = absence_events ?s @ [\<lparr>ev_start = clock_string f st,
                                   ev_end = clock_string f (current_time f),
                                   duration = current_time f - st\<rparr>]" by blast
    from * show "current_absence ?s' = None" by blast
  next
    fix st assume "\<not> is_focused ?s \<and> is_focused ?s' \<and> current_distraction ?s = Some st"
    then have *: "distraction_events ?s'
           = distraction_events ?s @ [\<lparr>ev_start = clock_string f st,
                                       ev_end = clock_string f (current_time f),
                                       duration = current_time f - st\<rparr>]
         \<and> current_distraction ?s' = None"
      using distraction_closed [of ?s p f st] by blast
    from * show "distraction_events ?s'
           = distraction_events ?s @ [\<lparr>ev_start = clock_string f st,
                                       ev_end = clock_string f (current_time f),
                                       duration = current_time f - st\<rparr>]" by blast
    from * show "current_distraction ?s' = None" by blast
  qed
qed

theorem closed_intervals_well_formed_witness:
  "sorted_wrt (<) (map current_time (away_frames @ [face_on 30]))
   \<and> (\<exists>s s'. run_frames source_thresholds away_frames (init_state 0 globals0) = Inr s
        \<and> frame_step source_thresholds (face_on 30) s = Inr s'
        \<and> \<not> is_present s \<and> current_absence s = Some 20 \<and> absence_events s = []
        \<and> is_present s' \<and> current_absence s' = None
        \<and> absence_events s' = [\<lparr>ev_start = ''00:00:20'', ev_end = ''00:00:30'', duration = 10\<rparr>]
        \<and> list_all (\<lambda>e. 0 < duration e) (absence_events s'))"
proof -
  have h: "sorted_wrt (<) (map current_time (away_frames @ [face_on 30]))"
    by (simp add: away_frames_def face_on_def face_off_def)
  have ev: "map_sum id (\<lambda>s. (is_present s, current_absence s, absence_events s))
      (run_frames source_thresholds away_frames (init_state 0 globals0))
      = Inr (False, Some 20, [])"
    "map_sum id is_present
      (run_frames source_thresholds (away_frames @ [face_on 30]) (init_state 0 globals0))
      = Inr True"
    "current_time (face_on 30) = 30"
    "clock_string (face_on 30) 20 = ''00:00:20''"
    "clock_string (face_on 30) 30 = ''00:00:30''"
    by code_simp+
  from closed_intervals_well_formed [of source_thresholds away_frames 0 globals0 "face_on 30"]
  obtain s s' where
    a: "run_frames source_thresholds away_frames (init_state 0 globals0) = Inr s"
    and b: "frame_step source_thresholds (face_on 30) s = Inr s'"
    and c: "\<forall>st. \<not> is_present s \<and> is_present s' \<and> current_absence s = Some st
           \<longrightarrow> absence_events s'
                 = absence_events s @ [\<lparr>ev_start = clock_string (face_on 30) st,
                                         ev_end = clock_string (face_on 30) (current_time (face_on 30)),
                                         duration = current_time (face_on 30) - st\<rparr>]
               \<and> current_absence s' = None"
    and d: "sorted_wrt (<) (map current_time (away_frames @ [face_on 30]))
          \<longrightarrow> (\<forall>e\<in>set (absence_events s') \<union> set (distraction_events s'). 0 < duration e)"
    by blast
  from a ev(1) have before: "\<not> is_present s" "current_absence s = Some 20" "absence_events s = []"
    by simp_all
  from a b ev(2) have after: "is_present s'" by (simp add: run_frames_snoc)
  from c before after ev(3,4,5)
  have closed: "current_absence s' = None"
    "absence_events s' = [\<lparr>ev_start = ''00:00:20'', ev_end = ''00:00:30'', duration = 10\<rparr>]"
    by simp_all
  from d h have "\<forall>e\<in>set (absence_events s'). 0 < duration e" by blast
  then have pos: "list_all (\<lambda>e. 0 < duration e) (absence_events s')"
    by (simp only: list_all_iff)
  show ?thesis
    by (intro conjI exI) (rule h a b before after closed pos)+
qed

section \<open>The actuator link\<close>

lemma send_to_arduino_fields:
  "arduino (send_to_arduino ok c g) = arduino g"
  "arduino_connected (send_to_arduino ok c g) = arduino_connected g"
  "writes (send_to_arduino ok c g)
     = (if arduino g \<noteq> None \<and> arduino_connected g then writes g @ [(c, ok)] else writes g)"
  "console (send_to_arduino ok c g)
     = (if arduino g \<noteq> None \<and> arduino_connected g
        then console g @ [if ok then LogSent c else LogSendError] else console g)"
  by (simp_all add: send_to_arduino_def)

lemma send_to_arduino_disconnected:
  "\<not> (arduino g \<noteq> None \<and> arduino_connected g) \<Longrightarrow> send_to_arduino ok c g = g"
  by (simp add: send_to_arduino_def)

lemma connect_to_arduino_fields:
  "fst (connect_to_arduino serial_ok globals0) = serial_ok"
  "arduino (snd (connect_to_arduino serial_ok globals0)) = (if serial_ok then Some port else None)"
  "arduino_connected (snd (connect_to_arduino serial_ok globals0)) = serial_ok"
  "writes (snd (connect_to_arduino serial_ok globals0)) = []"
  by (simp_all add: connect_to_arduino_def globals0_def)

lemma next_state_link_fields:
  "arduino (io (next_state p f s)) = arduino (io s)"
  "arduino_connected (io (next_state p f s)) = arduino_connected (io s)"
  "writes (io (next_state p f s))
     = (if (arduino (io s) \<noteq> None \<and> arduino_connected (io s))
           \<and> last_arduino_state s \<noteq> Some (current_arduino_state (next_state p f s))
        then writes (io s) @ [(current_arduino_state (next_state p f s), write_ok f)]
        else writes (io s))"
  by (simp_all add: next_state_link send_to_arduino_fields current_arduino_state_next)

lemma link_constant:
  "arduino (io (final_state p fs s)) = arduino (io s)"
  "arduino_connected (io (final_state p fs s)) = arduino_connected (io s)"
  by (induction fs rule: rev_induct)
     (simp_all add: final_state_Nil final_state_snoc next_state_link_fields)

lemma distinct_adj_snoc:
  "distinct_adj (xs @ [x]) \<longleftrightarrow> distinct_adj xs \<and> (xs = [] \<or> last xs \<noteq> x)"
  by (simp add: distinct_adj_append_iff)

lemma link_inv_step:
  assumes "writes (io s) \<noteq> [] \<longrightarrow> last_arduino_state s = Some (fst (last (writes (io s))))"
    "(arduino (io s) \<noteq> None \<and> arduino_connected (io s)) \<or> writes (io s) = []"
    "distinct_adj (map fst (writes (io s)))"
  shows "writes (io (next_state p f s)) \<noteq> []
           \<longrightarrow> last_arduino_state (next_state p f s)
               = Some (fst (last (writes (io (next_state p f s)))))"
    and "(arduino (io (next_state p f s)) \<noteq> None \<and> arduino_connected (io (next_state p f s)))
         \<or> writes (io (next_state p f s)) = []"
    and "distinct_adj (map fst (writes (io (next_state p f s))))"
  using assms
  by (auto simp add: next_state_link_fields next_state_link(1) current_arduino_state_next
        distinct_adj_snoc last_map)

lemma link_inv_final:
  assumes "writes g = []"
  shows "(writes (io (final_state p fs (init_state t0 g))) \<noteq> []
           \<longrightarrow> last_arduino_state (final_state p fs (init_state t0 g))
               = Some (fst (last (writes (io (final_state p fs (init_state t0 g)))))))
       \<and> ((arduino (io (final_state p fs (init_state t0 g))) \<noteq> None
            \<and> arduino_connected (io (final_state p fs (init_state t0 g))))
           \<or> writes (io (final_state p fs (init_state t0 g))) = [])
       \<and> distinct_adj (map fst (writes (io (final_state p fs (init_state t0 g)))))"
proof (induction fs rule: rev_induct)
  case Nil
  show ?case by (simp add: final_state_Nil init_fields assms)
next
  case (snoc f fs)
  then show ?case
    using link_inv_step [of "final_state p fs (init_state t0 g)" p f]
    by (simp only: final_state_snoc) blast
qed

lemma writes_all_ok:
  assumes "writes g = []" "\<forall>x\<in>set fs. write_ok x"
  shows "\<forall>w\<in>set (writes (io (final_state p fs (init_state t0 g)))). snd w"
  using assms(2)
  by (induction fs rule: rev_induct)
     (auto simp add: final_state_Nil final_state_snoc init_fields assms(1) next_state_link_fields)

lemma filter_all: "\<forall>w\<in>set ws. P w \<Longrightarrow> filter P ws = ws"
  by (induction ws) simp_all

text \<open>
  Claim C5, as stated, fails where it says that the same command is never sent twice in a
  row: \<open>last_arduino_state\<close> is updated after a failed write too. On a connected link,
  when \<open>A\<close> is written, the write of \<open>F\<close> fails and the command returns to \<open>A\<close>, the
  bytes that reach the port are \<open>A\<close> and \<open>A\<close>.
\<close>

theorem same_command_sent_twice_counterexample:
  "\<exists>s. run_frames source_thresholds failed_focus_write_frames
          (init_state 0 (snd (connect_to_arduino True globals0))) = Inr s
       \<and> writes (io s) = [(CHR ''A'', True), (CHR ''F'', False), (CHR ''A'', True)]
       \<and> map fst (filter snd (writes (io s))) = ''AA''
       \<and> \<not> distinct_adj (map fst (filter snd (writes (io s))))"
proof -
  have "map_sum id (\<lambda>s. writes (io s))
      (run_frames source_thresholds failed_focus_write_frames
         (init_state 0 (snd (connect_to_arduino True globals0))))
      = Inr [(CHR ''A'', True), (CHR ''F'', False), (CHR ''A'', True)]"
    by code_simp
  then show ?thesis by (simp add: run_frames_Inr)
qed

text \<open>
  Claim C5, amended. Each frame the command is \<open>A\<close> when presence is false, else \<open>F\<close>
  when focus is true, else \<open>D\<close>. \<open>send_to_arduino\<close> is called exactly when this command
  differs from \<open>last_arduino_state\<close>, which then becomes the command whether or not the
  write succeeds; on a connected link this is exactly when a write is attempted. So no two
  consecutive write attempts of a session carry the same command, and in a session in
  which no write fails no two consecutive bytes on the wire are the same.
\<close>

theorem actuator_command_deduplicated:
  "\<exists>s s'. run_frames p fs (init_state t0 (snd (connect_to_arduino serial_ok globals0))) = Inr s
     \<and> frame_step p f s = Inr s'
     \<and> current_arduino_state s'
         = (if \<not> is_present s' then CHR ''A'' else if is_focused s' then CHR ''F'' else CHR ''D'')
     \<and> last_arduino_state s' = Some (current_arduino_state s')
     \<and> io s' = (if last_arduino_state s \<noteq> Some (current_arduino_state s')
                then send_to_arduino (write_ok f) (current_arduino_state s') (io s)
                else io s)
     \<and> writes (io s')
         = (if serial_ok \<and> last_arduino_state s \<noteq> Some (current_arduino_state s')
            then writes (io s) @ [(current_arduino_state s', write_ok f)]
            else writes (io s))
     \<and> distinct_adj (map fst (writes (io s')))
     \<and> ((\<forall>x\<in>set (fs @ [f]). write_ok x)
          \<longrightarrow> distinct_adj (map fst (filter snd (writes (io s')))))"
proof -
  let ?g = "snd (connect_to_arduino serial_ok globals0)"
  let ?s = "final_state p fs (init_state t0 ?g)"
  let ?s' = "next_state p f ?s"
  have g: "writes ?g = []" by (rule connect_to_arduino_fields)
  have conn: "(arduino (io ?s) \<noteq> None \<and> arduino_connected (io ?s)) = serial_ok"
    by (simp add: link_constant init_fields connect_to_arduino_fields)
  have adj: "distinct_adj (map fst (writes (io ?s')))"
    using link_inv_final [OF g, of p "fs @ [f]" t0] by (simp only: final_state_snoc)
  show ?thesis
  proof (intro exI conjI impI)
    show "run_frames p fs (init_state t0 ?g) = Inr ?s" by (rule run_frames_Inr)
    show "frame_step p f ?s = Inr ?s'" by (rule frame_step_Inr)
    show "current_arduino_state ?s'
         = (if \<not> is_present ?s' then CHR ''A'' else if is_focused ?s' then CHR ''F'' else CHR ''D'')"
      by (rule current_arduino_state_def)
    show "last_arduino_state ?s' = Some (current_arduino_state ?s')"
      by (simp only: next_state_link(1) current_arduino_state_next)
    show "io ?s' = (if last_arduino_state ?s \<noteq> Some (current_arduino_state ?s')
                then send_to_arduino (write_ok f) (current_arduino_state ?s') (io ?s)
                else io ?s)"
      by (simp only: next_state_link(2) current_arduino_state_next)
    show "writes (io ?s')
         = (if serial_ok \<and> last_arduino_state ?s \<noteq> Some (current_arduino_state ?s')
            then writes (io ?s) @ [(current_arduino_state ?s', write_ok f)]
            else writes (io ?s))"
      by (simp only: next_state_link_fields(3) conn)
    show "distinct_adj (map fst (writes (io ?s')))" by (rule adj)
  next
    assume "\<forall>x\<in>set (fs @ [f]). write_ok x"
    from writes_all_ok [OF g this, of p t0]
    have "filter snd (writes (io ?s')) = writes (io ?s')"
      by (simp only: final_state_snoc) (rule filter_all)
    with adj show "distinct_adj (map fst (filter snd (writes (io ?s'))))" by simp
  qed
qed

theorem actuator_command_deduplicated_witness:
  "\<exists>s s'. run_frames source_thresholds away_frames
              (init_state 0 (snd (connect_to_arduino True globals0))) = Inr s
     \<and> frame_step source_thresholds (face_on 30) s = Inr s'
     \<and> writes (io s) = [(CHR ''A'', True), (CHR ''F'', True), (CHR ''A'', True)]
     \<and> last_arduino_state s = Some CHR ''A''
     \<and> current_arduino_state s' = CHR ''F''
     \<and> writes (io s')
         = [(CHR ''A'', True), (CHR ''F'', True), (CHR ''A'', True), (CHR ''F'', True)]
     \<and> distinct_adj (map fst (writes (io s')))
     \<and> distinct_adj (map fst (filter snd (writes (io s'))))"
proof -
  have all_ok: "\<forall>x\<in>set (away_frames @ [face_on 30]). write_ok x"
    by (simp add: away_frames_def face_on_def face_off_def)
  have ev: "map_sum id (\<lambda>s. (writes (io s), last_arduino_state s))
      (run_frames source_thresholds away_frames
         (init_state 0 (snd (connect_to_arduino True globals0))))
      = Inr ([(CHR ''A'', True), (CHR ''F'', True), (CHR ''A'', True)], Some CHR ''A'')"
    "map_sum id current_arduino_state
      (run_frames source_thresholds (away_frames @ [face_on 30])
         (init_state 0 (snd (connect_to_arduino True globals0))))
      = Inr CHR ''F''"
    "write_ok (face_on 30)"
    by code_simp+
  from actuator_command_deduplicated
         [of source_thresholds away_frames 0 True "face_on 30"]
  obtain s s' where
    a: "run_frames source_thresholds away_frames
          (init_state 0 (snd (connect_to_arduino True globals0))) = Inr s"
    and b: "frame_step source_thresholds (face_on 30) s = Inr s'"
    and c: "writes (io s')
         = (if True \<and> last_arduino_state s \<noteq> Some (current_arduino_state s')
            then writes (io s) @ [(current_arduino_state s', write_ok (face_on 30))]
            else writes (io s))"
    and d: "distinct_adj (map fst (writes (io s')))"
    and e: "(\<forall>x\<in>set (away_frames @ [face_on 30]). write_ok x)
          \<longrightarrow> distinct_adj (map fst (filter snd (writes (io s'))))"
    by blast
  from e all_ok have wire: "distinct_adj (map fst (filter snd (writes (io s'))))" by (rule mp)
  from a ev(1) have before:
    "writes (io s) = [(CHR ''A'', True), (CHR ''F'', True), (CHR ''A'', True)]"
    "last_arduino_state s = Some CHR ''A''"
    by simp_all
  from a b ev(2) have cmd: "current_arduino_state s' = CHR ''F''"
    by (simp add: run_frames_snoc)
  from c before cmd ev(3) have
    "writes (io s') = [(CHR ''A'', True), (CHR ''F'', True), (CHR ''A'', True), (CHR ''F'', True)]"
    by simp
  with a b before cmd d wire show ?thesis by blast
qed


text \<open>
  Claim C6, as stated, fails: \<open>last_arduino_state\<close> is assigned after \<open>send_to_arduino\<close>
  returns, whether or not the write succeeded. On a connected link, when the write of
  \<open>A\<close> fails on the first frame, \<open>last_arduino_state\<close> is \<open>A\<close> all the same and the
  second frame, whose command is still \<open>A\<close>, attempts no write.
\<close>

theorem failed_write_retried_counterexample:
  "\<exists>s. run_frames source_thresholds [face_off_failing 1, face_off 2]
          (init_state 0 (snd (connect_to_arduino True globals0))) = Inr s
       \<and> writes (io s) = [(CHR ''A'', False)]
       \<and> last_arduino_state s = Some CHR ''A''"
proof -
  have "map_sum id (\<lambda>s. (writes (io s), last_arduino_state s))
      (run_frames source_thresholds [face_off_failing 1, face_off 2]
         (init_state 0 (snd (connect_to_arduino True globals0))))
      = Inr ([(CHR ''A'', False)], Some CHR ''A'')"
    by code_simp
  then show ?thesis by (simp add: run_frames_Inr)
qed

text \<open>
  Claim C6, amended. When a write fails on a connected link, the failure is logged, the
  iteration completes and the link stays connected; \<open>last_arduino_state\<close> is updated to
  the command all the same, so a following frame with the same command attempts no write.
\<close>

theorem failed_write_not_retried:
  assumes "arduino (io s) \<noteq> None" "arduino_connected (io s)" "\<not> write_ok f"
  shows "\<exists>s'. frame_step p f s = Inr s'
     \<and> arduino (io s') = arduino (io s) \<and> arduino_connected (io s')
     \<and> last_arduino_state s' = Some (current_arduino_state s')
     \<and> (last_arduino_state s \<noteq> Some (current_arduino_state s')
          \<longrightarrow> writes (io s') = writes (io s) @ [(current_arduino_state s', False)]
              \<and> console (io s') = console (io s) @ [LogSendError])
     \<and> (\<forall>f2. \<exists>s2. frame_step p f2 s' = Inr s2
            \<and> (current_arduino_state s2 = current_arduino_state s' \<longrightarrow> io s2 = io s'))"
proof -
  let ?s' = "next_state p f s"
  have last: "last_arduino_state ?s' = Some (current_arduino_state ?s')"
    by (simp only: next_state_link(1) current_arduino_state_next)
  show ?thesis
  proof (intro exI conjI allI impI)
    show "frame_step p f s = Inr ?s'" by (rule frame_step_Inr)
    show "arduino (io ?s') = arduino (io s)" by (rule next_state_link_fields)
    show "arduino_connected (io ?s')" using assms(2) by (simp add: next_state_link_fields)
    show "last_arduino_state ?s' = Some (current_arduino_state ?s')" by (rule last)
  next
    assume "last_arduino_state s \<noteq> Some (current_arduino_state ?s')"
    then show "writes (io ?s') = writes (io s) @ [(current_arduino_state ?s', False)]"
      "console (io ?s') = console (io s) @ [LogSendError]"
      using assms
      by (simp_all add: next_state_link(2) current_arduino_state_next send_to_arduino_fields)
  next
    fix f2
    show "frame_step p f2 ?s' = Inr (next_state p f2 ?s')" by (rule frame_step_Inr)
  next
    fix f2
    assume "current_arduino_state (next_state p f2 ?s') = current_arduino_state ?s'"
    with last show "io (next_state p f2 ?s') = io ?s'"
      by (simp add: next_state_link(2) [of p f2] current_arduino_state_next [of p f2])
  qed
qed

theorem failed_write_not_retried_witness:
  "arduino (io (init_state 0 (snd (connect_to_arduino True globals0)))) \<noteq> None
   \<and> arduino_connected (io (init_state 0 (snd (connect_to_arduino True globals0))))
   \<and> \<not> write_ok (face_off_failing 1)
   \<and> (\<exists>s'. frame_step source_thresholds (face_off_failing 1)
               (init_state 0 (snd (connect_to_arduino True globals0))) = Inr s'
        \<and> last_arduino_state s' = Some CHR ''A''
        \<and> writes (io s') = [(CHR ''A'', False)]
        \<and> console (io s') = [LogTrying, LogConnected, LogSendError]
        \<and> (\<exists>s2. frame_step source_thresholds (face_off 2) s' = Inr s2 \<and> io s2 = io s'))"
proof -
  let ?s = "init_state 0 (snd (connect_to_arduino True globals0))"
  have h1: "arduino (io ?s) \<noteq> None" and h2: "arduino_connected (io ?s)"
    and h3: "\<not> write_ok (face_off_failing 1)"
    by (simp_all add: init_fields connect_to_arduino_fields face_off_failing_def)
  have before: "last_arduino_state ?s = None" "writes (io ?s) = []"
    "console (io ?s) = [LogTrying, LogConnected]"
    by (simp_all add: init_fields connect_to_arduino_def globals0_def)
  have ev: "map_sum id current_arduino_state
      (frame_step source_thresholds (face_off_failing 1) ?s) = Inr CHR ''A''"
    "map_sum id current_arduino_state
      (run_frames source_thresholds [face_off_failing 1, face_off 2] ?s) = Inr CHR ''A''"
    by code_simp+
  from failed_write_not_retried [OF h1 h2 h3, of source_thresholds]
  obtain s' where
    a: "frame_step source_thresholds (face_off_failing 1) ?s = Inr s'"
    and b: "last_arduino_state s' = Some (current_arduino_state s')"
    and c: "last_arduino_state ?s \<noteq> Some (current_arduino_state s')
          \<longrightarrow> writes (io s') = writes (io ?s) @ [(current_arduino_state s', False)]
              \<and> console (io s') = console (io ?s) @ [LogSendError]"
    and d: "\<forall>f2. \<exists>s2. frame_step source_thresholds f2 s' = Inr s2
            \<and> (current_arduino_state s2 = current_arduino_state s' \<longrightarrow> io s2 = io s')"
    by blast
  from a ev(1) have cmd: "current_arduino_state s' = CHR ''A''" by simp
  from d obtain s2 where
    e: "frame_step source_thresholds (face_off 2) s' = Inr s2"
    and f: "current_arduino_state s2 = current_arduino_state s' \<longrightarrow> io s2 = io s'"
    by blast
  from a e ev(2) have "current_arduino_state s2 = CHR ''A''" by simp
  with f cmd have same: "io s2 = io s'" by simp
  from b c cmd before have
    "last_arduino_state s' = Some CHR ''A''" "writes (io s') = [(CHR ''A'', False)]"
    "console (io s') = [LogTrying, LogConnected, LogSendError]"
    by simp_all
  with a e same h1 h2 h3 show ?thesis by blast
qed

text \<open>A disconnected link leaves everything but itself as it would be otherwise.\<close>

lemma frame_input_fields:
  assumes "frame_input f = frame_input f'"
  shows "current_time f = current_time f'" "face_detected f = face_detected f'"
    "focus_detected f = focus_detected f'" "clock_string f = clock_string f'"
  using assms
  by (simp_all add: frame_input_def face_detected_def focus_detected_def
        clock_string_def fromtimestamp_def fun_eq_iff)

lemma next_state_disconnected:
  assumes "frame_input f = frame_input f'" "\<not> (arduino g \<noteq> None \<and> arduino_connected g)"
  shows "next_state p f (s\<lparr>io := g\<rparr>) = (next_state p f' s)\<lparr>io := g\<rparr>"
proof (rule loop_state.equality)
  note input = frame_input_fields [OF assms(1)]
  show "io (next_state p f (s\<lparr>io := g\<rparr>)) = io ((next_state p f' s)\<lparr>io := g\<rparr>)"
    by (simp add: next_state_link(2) send_to_arduino_disconnected [OF assms(2)])
  show "last_arduino_state (next_state p f (s\<lparr>io := g\<rparr>))
        = last_arduino_state ((next_state p f' s)\<lparr>io := g\<rparr>)"
    by (simp add: next_state_link(1) current_arduino_state_def track_presence track_focus input)
  show "presence_score (next_state p f (s\<lparr>io := g\<rparr>))
        = presence_score ((next_state p f' s)\<lparr>io := g\<rparr>)"
    "focus_score (next_state p f (s\<lparr>io := g\<rparr>)) = focus_score ((next_state p f' s)\<lparr>io := g\<rparr>)"
    "overall_score (next_state p f (s\<lparr>io := g\<rparr>)) = overall_score ((next_state p f' s)\<lparr>io := g\<rparr>)"
    by (simp_all add: next_state_scores track_times track_clock track_presence track_focus input)
qed (simp_all add: step_simps frame_input_fields [OF assms(1)] split: option.split)

lemma final_state_disconnected:
  assumes "map frame_input fs = map frame_input fs'"
    "\<not> (arduino g \<noteq> None \<and> arduino_connected g)"
  shows "final_state p fs (s\<lparr>io := g\<rparr>) = (final_state p fs' s)\<lparr>io := g\<rparr>"
  using assms(1)
proof (induction fs arbitrary: fs' s)
  case Nil
  then show ?case by (simp add: final_state_Nil)
next
  case (Cons f fs)
  then obtain f' gs where fs': "fs' = f' # gs" by (cases fs') auto
  with Cons.prems have hd: "frame_input f = frame_input f'"
    and tl: "map frame_input fs = map frame_input gs" by simp_all
  show ?case
    by (simp only: fs' final_state_Cons next_state_disconnected [OF hd assms(2)] Cons.IH [OF tl])
qed

lemma session_summary_ignores_link: "session_summary (s\<lparr>io := g\<rparr>) = session_summary s"
  by (simp add: session_summary_def split: option.split)

lemma init_state_link: "init_state t0 g = (init_state t0 g')\<lparr>io := g\<rparr>"
  by (simp add: init_state_def)

text \<open>
  Claim C9. When the connection attempt fails, the link is disconnected and every call
  of \<open>send_to_arduino\<close> leaves it as it is; the session never raises and never changes
  the link. For the same camera frames and clock readings, every variable of the loop
  other than the link, \<open>last_arduino_state\<close> included, and the session summary are what
  they would be with any other link and any outcome of its writes, and the whole run
  ends as it does when the connection succeeds.
\<close>

theorem failed_connect_is_transparent:
  assumes "map frame_input fs = map frame_input fs'"
  shows "fst (connect_to_arduino False globals0) = False
     \<and> \<not> arduino_connected (snd (connect_to_arduino False globals0))
     \<and> (\<forall>ok c. send_to_arduino ok c (snd (connect_to_arduino False globals0))
                  = snd (connect_to_arduino False globals0))
     \<and> (\<exists>s s'. run_frames p fs (init_state t0 (snd (connect_to_arduino False globals0))) = Inr s
           \<and> run_frames p fs' (init_state t0 g') = Inr s'
           \<and> io s = snd (connect_to_arduino False globals0)
           \<and> s = s'\<lparr>io := io s\<rparr>
           \<and> session_summary s = session_summary s')
     \<and> run_detection False camera_ok t0 fs = run_detection True camera_ok t0 fs'"
proof -
  let ?g = "snd (connect_to_arduino False globals0)"
  have off: "\<not> (arduino ?g \<noteq> None \<and> arduino_connected ?g)"
    by (simp add: connect_to_arduino_fields)
  have eq: "final_state q fs (init_state t0 ?g) = (final_state q fs' (init_state t0 h))\<lparr>io := ?g\<rparr>"
    for q h
    using final_state_disconnected [OF assms off, of q "init_state t0 h"]
    by (simp only: init_state_link [of t0 ?g h, symmetric])
  have sm: "session_summary (final_state q fs (init_state t0 ?g))
            = session_summary (final_state q fs' (init_state t0 h))" for q h
    by (simp only: eq [of q h] session_summary_ignores_link)
  show ?thesis
  proof (intro conjI exI allI)
    show "fst (connect_to_arduino False globals0) = False"
      by (simp add: connect_to_arduino_fields)
    show "\<not> arduino_connected ?g" by (simp add: connect_to_arduino_fields)
    show "send_to_arduino ok c ?g = ?g" for ok c
      by (rule send_to_arduino_disconnected [OF off])
    show "run_frames p fs (init_state t0 ?g) = Inr (final_state p fs (init_state t0 ?g))"
      by (rule run_frames_Inr)
    show "run_frames p fs' (init_state t0 g') = Inr (final_state p fs' (init_state t0 g'))"
      by (rule run_frames_Inr)
    show "io (final_state p fs (init_state t0 ?g)) = ?g"
      by (simp add: eq [of p g'])
    then show "final_state p fs (init_state t0 ?g)
        = (final_state p fs' (init_state t0 g'))\<lparr>io := io (final_state p fs (init_state t0 ?g))\<rparr>"
      using eq [of p g'] by simp
    show "session_summary (final_state p fs (init_state t0 ?g))
        = session_summary (final_state p fs' (init_state t0 g'))"
      by (rule sm)
    show "run_detection False camera_ok t0 fs = run_detection True camera_ok t0 fs'"
      by (simp add: run_detection_def run_frames_Inr
            sm [of source_thresholds "snd (connect_to_arduino True globals0)"])
  qed
qed

theorem failed_connect_is_transparent_witness:
  "map frame_input [face_off_failing 1, face_on 2] = map frame_input [face_off 1, face_on 2]
   \<and> (\<exists>s s'. run_frames source_thresholds [face_off_failing 1, face_on 2]
                (init_state 0 (snd (connect_to_arduino False globals0))) = Inr s
        \<and> run_frames source_thresholds [face_off 1, face_on 2]
                (init_state 0 (snd (connect_to_arduino True globals0))) = Inr s'
        \<and> writes (io s) = [] \<and> writes (io s') = [(CHR ''A'', True)]
        \<and> last_arduino_state s = Some CHR ''A''
        \<and> s = s'\<lparr>io := io s\<rparr>
        \<and> session_summary s = session_summary s')"
proof -
  have h: "map frame_input [face_off_failing 1, face_on 2] = map frame_input [face_off 1, face_on 2]"
    by (simp add: frame_input_def face_off_failing_def face_off_def)
  have ev: "map_sum id (\<lambda>s. (writes (io s), last_arduino_state s))
      (run_frames source_thresholds [face_off_failing 1, face_on 2]
         (init_state 0 (snd (connect_to_arduino False globals0))))
      = Inr ([], Some CHR ''A'')"
    "map_sum id (\<lambda>s. writes (io s))
      (run_frames source_thresholds [face_off 1, face_on 2]
         (init_state 0 (snd (connect_to_arduino True globals0))))
      = Inr [(CHR ''A'', True)]"
    by code_simp+
  let ?P = "\<lambda>s s'. run_frames source_thresholds [face_off_failing 1, face_on 2]
          (init_state 0 (snd (connect_to_arduino False globals0))) = Inr s
      \<and> run_frames source_thresholds [face_off 1, face_on 2]
          (init_state 0 (snd (connect_to_arduino True globals0))) = Inr s'
      \<and> io s = snd (connect_to_arduino False globals0)
      \<and> s = s'\<lparr>io := io s\<rparr>
      \<and> session_summary s = session_summary s'"
  note inst = failed_connect_is_transparent
         [OF h, of source_thresholds 0 "snd (connect_to_arduino True globals0)"]
  have "\<exists>s s'. ?P s s'"
    by (rule inst [THEN conjunct2, THEN conjunct2, THEN conjunct2, THEN conjunct1])
  then obtain s where "\<exists>s'. ?P s s'" ..
  then obtain s' where all: "?P s s'" ..
  note a = all [THEN conjunct1]
  note b = all [THEN conjunct2, THEN conjunct1]
  note c = all [THEN conjunct2, THEN conjunct2, THEN conjunct2, THEN conjunct1]
    all [THEN conjunct2, THEN conjunct2, THEN conjunct2, THEN conjunct2]
  from a b ev have d: "writes (io s) = []" "writes (io s') = [(CHR ''A'', True)]"
    "last_arduino_state s = Some CHR ''A''"
    by simp_all
  show ?thesis
    by (intro conjI exI) (rule h a b c d)+
qed

end
